(* ===== verification/Prelude.thy ===== *)
theory Prelude
  imports
    Main
    "HOL-Library.Word"
    "HOL-Library.Sublist"
    "HOL-Library.Char_ord"
    "HOL-Library.List_Lexorder"
    "HOL-Library.Multiset"
begin

section \<open>Prelude: shared types, fact collections and list lemmas\<close>

text \<open>
  What every component theory shares: the machine integer types of the Go code, the fact
  collections the component proofs are driven by, and lemmas on lists that no component owns.
\<close>

type_synonym u64 = "64 word"
type_synonym i64 = "64 word"
type_synonym i32 = "32 word"

named_theorems str_simps \<open>rewrite rules of the Go string functions\<close>
named_theorems trim_simps \<open>what a cache transform leaves of an object\<close>

subsection \<open>Removing duplicates, first occurrence kept\<close>

text \<open>
  The idiom \<^verbatim>\<open>if _, dup := seen[k]; dup { continue }; seen[k] = ...; out = append(out, k)\<close>
  of the Go code, as a loop over the list with the set of keys seen so far.
\<close>

fun dedup_by :: "('a \<Rightarrow> 'k) \<Rightarrow> 'k list \<Rightarrow> 'a list \<Rightarrow> 'a list" where
  "dedup_by key seen [] = []"
| "dedup_by key seen (x # xs) =
     (if key x \<in> set seen then dedup_by key seen xs
      else x # dedup_by key (key x # seen) xs)"

lemma set_dedup_by: "key ` set (dedup_by key seen xs) = key ` set xs - set seen"
  by (induction key seen xs rule: dedup_by.induct) auto

lemma dedup_by_subset: "set (dedup_by key seen xs) \<subseteq> set xs"
  by (induction key seen xs rule: dedup_by.induct) auto

lemma distinct_dedup_by: "distinct (map key (dedup_by key seen xs))"
proof (induction key seen xs rule: dedup_by.induct)
  case (2 key seen x xs)
  then show ?case
    using set_dedup_by [of key "key x # seen" xs] by auto
qed simp

lemma subseq_dedup_by: "subseq (dedup_by key seen xs) xs"
  by (induction key seen xs rule: dedup_by.induct) auto

lemma dedup_by_distinct_id:
  "distinct (map key xs) \<Longrightarrow> key ` set xs \<inter> set seen = {} \<Longrightarrow> dedup_by key seen xs = xs"
  by (induction key seen xs rule: dedup_by.induct) auto

lemma dedup_by_id_set [simp]: "set (dedup_by (\<lambda>x. x) [] xs) = set xs"
  using set_dedup_by [of "\<lambda>x. x" "[]" xs] by simp

lemma dedup_by_id_distinct [simp]: "distinct (dedup_by (\<lambda>x. x) seen xs)"
  using distinct_dedup_by [of "\<lambda>x. x" seen xs] by simp

subsection \<open>Lists\<close>

lemma split_char_unique:
  assumes "xs @ c # ys = xs' @ c # ys'" "c \<notin> set xs" "c \<notin> set xs'"
  shows "xs = xs'" and "ys = ys'"
proof -
  have "xs = takeWhile (\<lambda>x. x \<noteq> c) (xs @ c # ys)" using assms(2) by (induction xs) auto
  also have "\<dots> = takeWhile (\<lambda>x. x \<noteq> c) (xs' @ c # ys')" using assms(1) by simp
  also have "\<dots> = xs'" using assms(3) by (induction xs') auto
  finally show "xs = xs'" .
  with assms(1) show "ys = ys'" by simp
qed

lemma map_filter_append [simp]:
  "List.map_filter f (xs @ ys) = List.map_filter f xs @ List.map_filter f ys"
  by (induction xs) (auto simp: map_filter_simps split: option.splits)

lemma map_filter_Nil [simp]: "List.map_filter f [] = []"
  by (simp add: map_filter_simps)

lemma map_filter_Cons [simp]:
  "List.map_filter f (x # xs) =
     (case f x of None \<Rightarrow> List.map_filter f xs | Some y \<Rightarrow> y # List.map_filter f xs)"
  by (simp add: map_filter_simps)

lemma map_filter_map [simp]: "List.map_filter f (map g xs) = List.map_filter (f \<circ> g) xs"
  by (induction xs) (auto split: option.splits)

lemma set_map_filter_iff [simp]:
  "y \<in> set (List.map_filter f xs) \<longleftrightarrow> (\<exists>x\<in>set xs. f x = Some y)"
  by (induction xs) (auto split: option.splits)

lemma map_filter_all_Some:
  "(\<And>x. x \<in> set xs \<Longrightarrow> f x = Some (g x)) \<Longrightarrow> List.map_filter f xs = map g xs"
  by (induction xs) auto

lemma map_filter_all_None:
  "(\<And>x. x \<in> set xs \<Longrightarrow> f x = None) \<Longrightarrow> List.map_filter f xs = []"
  by (induction xs) auto

lemma find_append: "find P (xs @ ys) = (case find P xs of None \<Rightarrow> find P ys | Some x \<Rightarrow> Some x)"
  by (induction xs) auto

subsection \<open>Durations\<close>

text \<open>
  A \<^verbatim>\<open>time.Duration\<close> counts nanoseconds in 64 bits.  Where the code does arithmetic on
  one it is an \<open>i64\<close>; where it only compares it, it is the integer it stands for.
\<close>

definition second_ns :: int where
  "second_ns = 1000000000"

definition minute_ns :: int where
  "minute_ns = 60 * second_ns"

definition hour_ns :: int where
  "hour_ns = 60 * minute_ns"

lemmas duration_defs = second_ns_def minute_ns_def hour_ns_def

end
