(* ===== verification/Go_Strings.thy ===== *)
theory Go_Strings
  imports Prelude
begin

section \<open>The Go string functions the program uses\<close>

text \<open>
  A Go string is a sequence of bytes, here a \<^typ>\<open>string\<close> (a character is a byte).  The
  functions of the packages \<^verbatim>\<open>strings\<close>, \<^verbatim>\<open>bytes\<close> and
  \<^verbatim>\<open>strconv\<close> below are those the program calls, at the arguments it calls them with.  An
  index is an \<^typ>\<open>int\<close>, with \<open>-1\<close> for "not found" as in Go.
\<close>

subsection \<open>Searching\<close>

fun last_index_loop :: "string \<Rightarrow> char \<Rightarrow> int \<Rightarrow> int \<Rightarrow> int" where
  "last_index_loop [] c i found = found"
| "last_index_loop (x # xs) c i found = last_index_loop xs c (i + 1) (if x = c then i else found)"

definition last_index :: "string \<Rightarrow> char \<Rightarrow> int" where
  "last_index s c = last_index_loop s c 0 (-1)"

fun index_loop :: "string \<Rightarrow> char \<Rightarrow> int \<Rightarrow> int" where
  "index_loop [] c i = -1"
| "index_loop (x # xs) c i = (if x = c then i else index_loop xs c (i + 1))"

definition index_byte :: "string \<Rightarrow> char \<Rightarrow> int" where
  "index_byte s c = index_loop s c 0"

fun contains :: "string \<Rightarrow> string \<Rightarrow> bool" where
  "contains [] t = (t = [])"
| "contains (x # xs) t = (prefix t (x # xs) \<or> contains xs t)"

definition contains_any :: "string \<Rightarrow> string \<Rightarrow> bool" where
  "contains_any s chars = list_ex (\<lambda>c. c \<in> set chars) s"

definition slice_from :: "string \<Rightarrow> int \<Rightarrow> string" where
  "slice_from s i = drop (nat i) s"

definition slice_to :: "string \<Rightarrow> int \<Rightarrow> string" where
  "slice_to s i = take (nat i) s"

lemma last_index_loop_absent: "c \<notin> set s \<Longrightarrow> last_index_loop s c i found = found"
  by (induction s c i found rule: last_index_loop.induct) auto

lemma last_index_loop_split:
  "c \<notin> set ys \<Longrightarrow> last_index_loop (xs @ c # ys) c i found = i + int (length xs)"
  by (induction xs arbitrary: i found) (auto simp: last_index_loop_absent)

lemma last_index_absent [simp]: "c \<notin> set s \<Longrightarrow> last_index s c = -1"
  by (simp add: last_index_def last_index_loop_absent)

lemma last_index_split [simp]:
  "c \<notin> set ys \<Longrightarrow> last_index (xs @ c # ys) c = int (length xs)"
  by (simp add: last_index_def last_index_loop_split)

lemma last_index_nonneg_iff [str_simps]: "0 \<le> last_index s c \<longleftrightarrow> c \<in> set s"
proof (cases "c \<in> set s")
  case True
  then obtain xs ys where "s = xs @ c # ys" "c \<notin> set ys" by (meson split_list_last)
  then show ?thesis by simp
qed simp

lemma last_index_ge [simp]: "-1 \<le> last_index s c"
  by (cases "c \<in> set s") (use last_index_nonneg_iff [of s c] in auto)

lemma last_index_E:
  assumes "0 \<le> last_index s c"
  obtains xs ys where "s = xs @ c # ys" and "c \<notin> set ys" and "last_index s c = int (length xs)"
proof -
  from assms have "c \<in> set s" by (simp add: last_index_nonneg_iff)
  then obtain xs ys where "s = xs @ c # ys" "c \<notin> set ys" by (meson split_list_last)
  then show thesis using that by simp
qed

lemma index_loop_absent: "c \<notin> set s \<Longrightarrow> index_loop s c i = -1"
  by (induction s c i rule: index_loop.induct) auto

lemma index_loop_split: "c \<notin> set xs \<Longrightarrow> index_loop (xs @ c # ys) c i = i + int (length xs)"
  by (induction xs arbitrary: i) auto

lemma index_byte_absent [simp]: "c \<notin> set s \<Longrightarrow> index_byte s c = -1"
  by (simp add: index_byte_def index_loop_absent)

lemma index_byte_split [simp]:
  "c \<notin> set xs \<Longrightarrow> index_byte (xs @ c # ys) c = int (length xs)"
  by (simp add: index_byte_def index_loop_split)

lemma index_byte_nonneg_iff [str_simps]: "0 \<le> index_byte s c \<longleftrightarrow> c \<in> set s"
proof (cases "c \<in> set s")
  case True
  then obtain xs ys where "s = xs @ c # ys" "c \<notin> set xs" by (meson split_list_first)
  then show ?thesis by simp
qed simp

lemma index_byte_E:
  assumes "0 \<le> index_byte s c"
  obtains xs ys where "s = xs @ c # ys" and "c \<notin> set xs" and "index_byte s c = int (length xs)"
proof -
  from assms have "c \<in> set s" by (simp add: index_byte_nonneg_iff)
  then obtain xs ys where "s = xs @ c # ys" "c \<notin> set xs" by (meson split_list_first)
  then show thesis using that by simp
qed

lemma contains_iff_sublist: "contains s t \<longleftrightarrow> sublist t s"
  by (induction s) (auto simp: sublist_Cons_right)

lemma contains_char [str_simps]: "contains s [c] \<longleftrightarrow> c \<in> set s"
  by (induction s) auto

lemma slice_split [simp]:
  "slice_from (xs @ ys) (int (length xs)) = ys"
  "slice_to (xs @ ys) (int (length xs)) = xs"
  "slice_from (xs @ y # ys) (int (length xs) + 1) = ys"
  by (auto simp: slice_from_def slice_to_def nat_add_distrib)

subsection \<open>Trimming\<close>

definition trim_prefix :: "string \<Rightarrow> string \<Rightarrow> string" where
  "trim_prefix s p = (if prefix p s then drop (length p) s else s)"

text \<open>
  \<open>strip ts s\<close> removes tokens of \<open>ts\<close> from the front of \<open>s\<close> as long as one is
  there: \<^verbatim>\<open>TrimLeftFunc\<close> over the encodings of the white-space runes.
\<close>

function strip :: "string list \<Rightarrow> string \<Rightarrow> string" where
  "strip ts s = (case find (\<lambda>t. t \<noteq> [] \<and> prefix t s) ts of
      None \<Rightarrow> s
    | Some t \<Rightarrow> strip ts (drop (length t) s))"
  by pat_completeness auto
termination
  by (relation "measure (\<lambda>(ts, s). length s)") (auto simp: find_Some_iff prefix_def)

declare strip.simps [simp del]

text \<open>
  The UTF-8 encodings of the runes \<^verbatim>\<open>unicode.IsSpace\<close> accepts: the six ASCII ones,
  U+0085, U+00A0, U+1680, U+2000 to U+200A, U+2028, U+2029, U+202F, U+205F and U+3000.
\<close>

definition space_tokens :: "string list" where
  "space_tokens =
     [[CHR 0x09], [CHR 0x0A], [CHR 0x0B], [CHR 0x0C], [CHR 0x0D], [CHR 0x20],
      [CHR 0xC2, CHR 0x85], [CHR 0xC2, CHR 0xA0], [CHR 0xE1, CHR 0x9A, CHR 0x80]] @
     map (\<lambda>b. [CHR 0xE2, CHR 0x80, b])
       [CHR 0x80, CHR 0x81, CHR 0x82, CHR 0x83, CHR 0x84, CHR 0x85, CHR 0x86, CHR 0x87,
        CHR 0x88, CHR 0x89, CHR 0x8A, CHR 0xA8, CHR 0xA9, CHR 0xAF] @
     [[CHR 0xE2, CHR 0x81, CHR 0x9F], [CHR 0xE3, CHR 0x80, CHR 0x80]]"

definition trim_space :: "string \<Rightarrow> string" where
  "trim_space s = rev (strip (map rev space_tokens) (rev (strip space_tokens s)))"

definition trim_right :: "string \<Rightarrow> string \<Rightarrow> string" where
  "trim_right s cutset = rev (dropWhile (\<lambda>c. c \<in> set cutset) (rev s))"

lemma suffix_strip: "suffix (strip ts s) s"
proof (induction ts s rule: strip.induct)
  case (1 ts s)
  show ?case
  proof (cases "find (\<lambda>t. t \<noteq> [] \<and> prefix t s) ts")
    case None
    then show ?thesis by (simp add: strip.simps [of ts s])
  next
    case (Some t)
    with 1 have "suffix (strip ts (drop (length t) s)) (drop (length t) s)" by blast
    with Some show ?thesis
      by (simp add: strip.simps [of ts s]) (meson suffix_drop suffix_order.trans)
  qed
qed

lemma strip_id: "(\<And>t. t \<in> set ts \<Longrightarrow> t \<noteq> [] \<Longrightarrow> \<not> prefix t s) \<Longrightarrow> strip ts s = s"
proof -
  assume "\<And>t. t \<in> set ts \<Longrightarrow> t \<noteq> [] \<Longrightarrow> \<not> prefix t s"
  then have "find (\<lambda>t. t \<noteq> [] \<and> prefix t s) ts = None" by (auto simp: find_None_iff)
  then show ?thesis by (simp add: strip.simps [of ts s])
qed

lemma strip_not_prefix: "t \<in> set ts \<Longrightarrow> t \<noteq> [] \<Longrightarrow> \<not> prefix t (strip ts s)"
proof (induction ts s rule: strip.induct)
  case (1 ts s)
  show ?case
  proof (cases "find (\<lambda>t. t \<noteq> [] \<and> prefix t s) ts")
    case None
    with "1.prems" have "\<not> prefix t s" by (auto simp: find_None_iff)
    with None show ?thesis by (simp add: strip.simps [of ts s])
  next
    case (Some u)
    with 1 have "\<not> prefix t (strip ts (drop (length u) s))" by blast
    with Some show ?thesis by (simp add: strip.simps [of ts s])
  qed
qed

lemma strip_idem [simp]: "strip ts (strip ts s) = strip ts s"
  by (rule strip_id) (rule strip_not_prefix)

lemma strip_Nil [simp]: "strip ts [] = []"
  by (rule strip_id) auto

lemma trim_prefix_no [simp]: "\<not> prefix p s \<Longrightarrow> trim_prefix s p = s"
  by (simp add: trim_prefix_def)

lemma trim_prefix_append [simp]: "trim_prefix (p @ s) p = s"
  by (simp add: trim_prefix_def)

subsection \<open>Case folding and decimal numerals\<close>

text \<open>
  \<^verbatim>\<open>strings.EqualFold\<close> against an ASCII word: upper case folds to lower case, and the two
  non-ASCII runes whose simple folding is ASCII are the long s (U+017F) and the Kelvin sign
  (U+212A).
\<close>

definition to_lower_char :: "char \<Rightarrow> char" where
  "to_lower_char c = (if 65 \<le> (of_char c :: nat) \<and> (of_char c :: nat) \<le> 90
     then char_of ((of_char c :: nat) + 32) else c)"

fun fold_case :: "string \<Rightarrow> string" where
  "fold_case [] = []"
| "fold_case (c # s) =
     (if prefix [CHR 0xC5, CHR 0xBF] (c # s) then CHR ''s'' # fold_case (drop 1 s)
      else if prefix [CHR 0xE2, CHR 0x84, CHR 0xAA] (c # s) then CHR ''k'' # fold_case (drop 2 s)
      else to_lower_char c # fold_case s)"

definition equal_fold :: "string \<Rightarrow> string \<Rightarrow> bool" where
  "equal_fold s t = (fold_case s = fold_case t)"

fun digits_of :: "nat \<Rightarrow> string" where
  "digits_of n = (if n < 10 then [char_of (48 + n)] else digits_of (n div 10) @ [char_of (48 + n mod 10)])"

declare digits_of.simps [simp del]

definition itoa :: "int \<Rightarrow> string" where
  "itoa n = (if n < 0 then CHR ''-'' # digits_of (nat (- n)) else digits_of (nat n))"

subsection \<open>Strings that need no trimming\<close>

definition graphic :: "char \<Rightarrow> bool" where
  "graphic c \<longleftrightarrow> 32 < (of_char c :: nat) \<and> (of_char c :: nat) < 128"

lemma space_tokens_ends: "t \<in> set space_tokens \<Longrightarrow> t \<noteq> [] \<and> \<not> graphic (hd t) \<and> \<not> graphic (last t)"
  by (auto simp: space_tokens_def graphic_def)

lemma trim_space_graphic: "graphic (hd s) \<Longrightarrow> graphic (last s) \<Longrightarrow> s \<noteq> [] \<Longrightarrow> trim_space s = s"
proof -
  assume s: "graphic (hd s)" "graphic (last s)" "s \<noteq> []"
  have hd: "prefix t u \<Longrightarrow> t \<noteq> [] \<Longrightarrow> hd t = hd u" for t u :: string by (auto simp: prefix_def)
  have "strip space_tokens s = s"
    using s space_tokens_ends by (intro strip_id) (metis hd)
  moreover have "strip (map rev space_tokens) (rev s) = rev s"
    using s space_tokens_ends by (intro strip_id) (fastforce simp: hd_rev dest!: hd)
  ultimately show ?thesis by (simp add: trim_space_def)
qed

lemma trim_space_Nil [simp]: "trim_space [] = []"
  by (simp add: trim_space_def)

end
