(* ===== verification/Event_Log.thy ===== *)
theory Event_Log
  imports Go_Strings
begin

section \<open>Event ids and the record stream: eventid.go, logattrs.go, collector.go\<close>

text \<open>
  Every record the agent emits is one call of the package logger.  The state of the package is the
  atomic event-id counter, the identity attributes appended to each record, and what the logger has
  written so far.  An operation of the program is a function on this state; its abstract meaning is
  the list of lines it logs (\<open>outs\<close> below), and the contract of the locale \<open>emitter\<close> says
  that the two agree.
\<close>

subsection \<open>Attributes and log entries\<close>

text \<open>The value of an attribute is what the JSON handler renders.\<close>

datatype aval =
    ANull
  | ABool bool
  | AInt int
  | AU64 u64
  | AStr string
  | AList "aval list"
  | AObj "(string \<times> aval) list"

type_synonym attr = "string \<times> aval"

datatype level = LDebug | LInfo | LWarn | LError

record entry =
  elevel :: level
  emsg :: string
  eattrs :: "attr list"

text \<open>
  JSON encodings used by several components: a list of strings with \<^verbatim>\<open>nil\<close> as null, a label
  map, and a struct field tagged \<^verbatim>\<open>omitempty\<close>, left out at its zero value.
\<close>

definition str_list :: "string list \<Rightarrow> aval" where
  "str_list xs = AList (map AStr xs)"

definition nil_str_list :: "string list \<Rightarrow> aval" where
  "nil_str_list xs = (if xs = [] then ANull else str_list xs)"

definition opt_str_list :: "string list option \<Rightarrow> aval" where
  "opt_str_list xs = (case xs of None \<Rightarrow> ANull | Some ys \<Rightarrow> str_list ys)"

definition str_map :: "(string \<times> string) list option \<Rightarrow> aval" where
  "str_map m = (case m of None \<Rightarrow> ANull | Some kvs \<Rightarrow> AObj (map (\<lambda>(k, v). (k, AStr v)) kvs))"

definition omit_str :: "string \<Rightarrow> string \<Rightarrow> attr list" where
  "omit_str k v = (if v = [] then [] else [(k, AStr v)])"

definition omit_i32 :: "string \<Rightarrow> i32 \<Rightarrow> attr list" where
  "omit_i32 k v = (if v = 0 then [] else [(k, AInt (sint v))])"

lemmas json_defs = str_list_def nil_str_list_def opt_str_list_def str_map_def omit_str_def omit_i32_def

subsection \<open>The package state\<close>

record collector =
  nextEventID :: u64
  clusterAttrs :: "attr list"
  records :: "entry list"

definition init_collector :: collector where
  "init_collector = \<lparr>nextEventID = 0, clusterAttrs = [], records = []\<rparr>"

definition NextEventID :: "collector \<Rightarrow> u64 \<times> collector" where
  "NextEventID c = (let n = nextEventID c + 1 in (n, c\<lparr>nextEventID := n\<rparr>))"

definition SetClusterAttrs :: "attr list \<Rightarrow> collector \<Rightarrow> collector" where
  "SetClusterAttrs attrs c = c\<lparr>clusterAttrs := attrs\<rparr>"

subsection \<open>The handler chain\<close>

text \<open>
  The inner handler is the JSON handler of \<^verbatim>\<open>log/slog\<close>: attributes added with
  \<^verbatim>\<open>WithAttrs\<close> come before those of the record, and \<^verbatim>\<open>WithGroup\<close> nests what follows
  under a name, with an empty group left out.
\<close>

datatype jhandler = JBase | JAttrs jhandler "attr list" | JGroup jhandler string

fun jhandle :: "jhandler \<Rightarrow> attr list \<Rightarrow> attr list" where
  "jhandle JBase as = as"
| "jhandle (JAttrs h bs) as = jhandle h (bs @ as)"
| "jhandle (JGroup h g) as = jhandle h (if as = [] then [] else [(g, AObj as)])"

record clusterAttrHandler =
  inner :: jhandler

definition WithClusterAttrs :: "jhandler \<Rightarrow> clusterAttrHandler" where
  "WithClusterAttrs h = \<lparr>inner = h\<rparr>"

definition Enabled :: "clusterAttrHandler \<Rightarrow> level \<Rightarrow> bool" where
  "Enabled h l = (l \<noteq> LDebug)"

definition Handle :: "clusterAttrHandler \<Rightarrow> entry \<Rightarrow> collector \<Rightarrow> collector" where
  "Handle h r c =
     (let r2 = r\<lparr>eattrs := eattrs r @ clusterAttrs c\<rparr>
      in c\<lparr>records := records c @ [r2\<lparr>eattrs := jhandle (inner h) (eattrs r2)\<rparr>]\<rparr>)"

definition WithAttrs :: "clusterAttrHandler \<Rightarrow> attr list \<Rightarrow> clusterAttrHandler" where
  "WithAttrs h attrs = \<lparr>inner = JAttrs (inner h) attrs\<rparr>"

definition WithGroup :: "clusterAttrHandler \<Rightarrow> string \<Rightarrow> clusterAttrHandler" where
  "WithGroup h name = \<lparr>inner = JGroup (inner h) name\<rparr>"

text \<open>The package logger \<open>Log\<close>: the cluster handler directly over the JSON handler.\<close>

definition Log_at :: "level \<Rightarrow> string \<Rightarrow> attr list \<Rightarrow> collector \<Rightarrow> collector" where
  "Log_at l msg attrs c =
     (let h = WithClusterAttrs JBase
      in if Enabled h l then Handle h \<lparr>elevel = l, emsg = msg, eattrs = attrs\<rparr> c else c)"

text \<open>
  The shape of all record emissions,
  \<^verbatim>\<open>Log.Info(event, "kind", kind, "event_id", NextEventID(), rest...)\<close>: the arguments, and
  with them the id, are evaluated before the call.
\<close>

definition log_event :: "string \<Rightarrow> string \<Rightarrow> attr list \<Rightarrow> collector \<Rightarrow> collector" where
  "log_event event kind rest c =
     (case NextEventID c of (n, c') \<Rightarrow>
        Log_at LInfo event ((''kind'', AStr kind) # (''event_id'', AU64 n) # rest) c')"

subsection \<open>What an operation logs\<close>

text \<open>
  The abstract meaning of an operation: the lines it logs, in order, before ids and identity
  attributes are filled in.  \<open>ORec event kind rest\<close> is a record, \<open>OLog\<close> an operational
  line without an event id.
\<close>

datatype out = ORec string string "attr list" | OLog level string "attr list"

fun log_out :: "out \<Rightarrow> collector \<Rightarrow> collector" where
  "log_out (ORec event kind rest) = log_event event kind rest"
| "log_out (OLog l msg attrs) = Log_at l msg attrs"

definition log_outs :: "out list \<Rightarrow> collector \<Rightarrow> collector" where
  "log_outs os c = fold log_out os c"

fun is_rec :: "out \<Rightarrow> bool" where
  "is_rec (ORec event kind rest) = True"
| "is_rec (OLog l msg attrs) = False"

definition n_recs :: "out list \<Rightarrow> nat" where
  "n_recs os = length (filter is_rec os)"

fun wf_out :: "out \<Rightarrow> bool" where
  "wf_out (ORec event kind rest) = True"
| "wf_out (OLog l msg attrs) = (''event_id'' \<notin> fst ` set attrs)"

fun stamp :: "u64 \<Rightarrow> attr list \<Rightarrow> out list \<Rightarrow> entry list" where
  "stamp n as [] = []"
| "stamp n as (ORec event kind rest # os) =
     \<lparr>elevel = LInfo, emsg = event,
      eattrs = (''kind'', AStr kind) # (''event_id'', AU64 (n + 1)) # rest @ as\<rparr> # stamp (n + 1) as os"
| "stamp n as (OLog l msg attrs # os) =
     (if l = LDebug then [] else [\<lparr>elevel = l, emsg = msg, eattrs = attrs @ as\<rparr>]) @ stamp n as os"

definition eid :: "entry \<Rightarrow> u64 option" where
  "eid e = (case map_of (eattrs e) ''event_id'' of Some (AU64 n) \<Rightarrow> Some n | _ \<Rightarrow> None)"

definition event_ids :: "entry list \<Rightarrow> u64 list" where
  "event_ids es = List.map_filter eid es"

definition id_range :: "u64 \<Rightarrow> nat \<Rightarrow> u64 list" where
  "id_range n k = map (\<lambda>i. n + of_nat (Suc i)) [0..<k]"

lemma Log_at_eq [simp]:
  "Log_at l msg attrs c = (if l = LDebug then c else
     c\<lparr>records := records c @ [\<lparr>elevel = l, emsg = msg, eattrs = attrs @ clusterAttrs c\<rparr>]\<rparr>)"
  by (simp add: Log_at_def Handle_def Enabled_def WithClusterAttrs_def)

lemma log_event_eq:
  "log_event event kind rest c = c\<lparr>nextEventID := nextEventID c + 1,
     records := records c @ [\<lparr>elevel = LInfo, emsg = event,
       eattrs = (''kind'', AStr kind) # (''event_id'', AU64 (nextEventID c + 1)) # rest @ clusterAttrs c\<rparr>]\<rparr>"
  by (simp add: log_event_def NextEventID_def Let_def)

lemma log_outs_simps [simp]:
  "log_outs [] c = c"
  "log_outs (os @ os') c = log_outs os' (log_outs os c)"
  by (simp_all add: log_outs_def)

lemma log_outs_Cons: "log_outs (x # os) c = log_outs os (log_out x c)"
  by (simp add: log_outs_def)

lemma n_recs_simps [simp]:
  "n_recs [] = 0"
  "n_recs (ORec event kind rest # os) = Suc (n_recs os)"
  "n_recs (OLog l msg attrs # os) = n_recs os"
  "n_recs (os @ os') = n_recs os + n_recs os'"
  by (simp_all add: n_recs_def)

lemma n_recs_all: "list_all is_rec os \<Longrightarrow> n_recs os = length os"
  by (induction os) (auto simp: n_recs_def)

lemma wf_out_rec: "list_all is_rec os \<Longrightarrow> list_all wf_out os"
  by (induction os) (auto elim: is_rec.elims)

text \<open>The meaning of a list of lines on the state, in one equation.\<close>

lemma log_outs_eq:
  "log_outs os c = c\<lparr>nextEventID := nextEventID c + of_nat (n_recs os),
     records := records c @ stamp (nextEventID c) (clusterAttrs c) os\<rparr>"
proof (induction os arbitrary: c)
  case Nil
  then show ?case by simp
next
  case (Cons x os)
  then show ?case
    by (cases x) (simp_all add: log_outs_Cons log_event_eq add.assoc)
qed

lemma log_outs_clusterAttrs [simp]: "clusterAttrs (log_outs os c) = clusterAttrs c"
  by (simp add: log_outs_eq)

lemma stamp_append: "stamp n as (os @ os') = stamp n as os @ stamp (n + of_nat (n_recs os)) as os'"
proof (induction os arbitrary: n)
  case (Cons x os)
  then show ?case by (cases x) (simp_all add: add.assoc)
qed simp

lemma id_range_Suc: "id_range n (Suc k) = (n + 1) # id_range (n + 1) k"
  by (simp add: id_range_def upt_conv_Cons map_Suc_upt [symmetric] add.assoc del: upt_Suc)

lemma length_id_range [simp]: "length (id_range n k) = k"
  by (simp add: id_range_def)

lemma eid_rec [simp]:
  "eid \<lparr>elevel = l, emsg = msg, eattrs = (''kind'', AStr kind) # (''event_id'', AU64 n) # rest\<rparr> = Some n"
  by (simp add: eid_def)

lemma eid_plain: "''event_id'' \<notin> fst ` set attrs \<Longrightarrow> eid \<lparr>elevel = l, emsg = msg, eattrs = attrs\<rparr> = None"
  by (simp add: eid_def map_of_eq_None_iff [THEN iffD2])

lemma event_ids_stamp:
  assumes "list_all wf_out os" and "''event_id'' \<notin> fst ` set as"
  shows "event_ids (stamp n as os) = id_range n (n_recs os)"
  using assms(1)
proof (induction os arbitrary: n)
  case Nil
  then show ?case by (simp add: event_ids_def id_range_def)
next
  case (Cons x os)
  then show ?case
  proof (cases x)
    case (ORec event kind rest)
    with Cons show ?thesis by (simp add: event_ids_def id_range_Suc)
  next
    case (OLog l msg attrs)
    with Cons.prems assms(2) have "eid \<lparr>elevel = l, emsg = msg, eattrs = attrs @ as\<rparr> = None"
      by (intro eid_plain) auto
    with OLog Cons show ?thesis by (simp add: event_ids_def)
  qed
qed

lemma id_range_nth: "i < k \<Longrightarrow> id_range n k ! i = n + of_nat (Suc i)"
  by (simp add: id_range_def)

lemma distinct_id_range: "k \<le> 2 ^ 64 \<Longrightarrow> distinct (id_range n k)"
proof -
  assume k: "k \<le> 2 ^ 64"
  have "i = j" if "i < k" "j < k" "n + of_nat (Suc i) = (n + of_nat (Suc j) :: u64)" for i j
  proof -
    from that(3) have "(of_nat i :: u64) = of_nat j" by simp
    with that k show ?thesis by (simp add: word_of_nat_eq_iff take_bit_nat_eq_self)
  qed
  then show ?thesis
    by (auto simp: id_range_def distinct_map inj_on_def)
qed

subsection \<open>The emission contract\<close>

text \<open>
  An emitter logs the records of an object and returns a count: the interface between the
  components that build records and the snapshot code that drives them.  An exact emitter counts
  what it logs.
\<close>

locale emitter =
  fixes emit :: "'a \<Rightarrow> collector \<Rightarrow> nat \<times> collector"
    and outs :: "'a \<Rightarrow> out list"
    and cnt :: "'a \<Rightarrow> nat"
  assumes emit_eq: "emit x c = (cnt x, log_outs (outs x) c)"
    and outs_rec: "list_all is_rec (outs x)"
begin

lemma fold_emit:
  "fold (\<lambda>x (n, c). case emit x c of (k, c') \<Rightarrow> (n + k, c')) xs (n, c) =
     (n + sum_list (map cnt xs), log_outs (concat (map outs xs)) c)"
  by (induction xs arbitrary: n c) (simp_all add: emit_eq)

lemma all_rec_concat: "list_all is_rec (concat (map outs xs))"
  by (induction xs) (simp_all add: outs_rec)

lemma n_recs_outs: "n_recs (outs x) = length (outs x)"
  by (rule n_recs_all) (rule outs_rec)

end

locale exact_emitter = emitter +
  assumes cnt_exact: "cnt x = length (outs x)"
begin

lemma sum_cnt: "sum_list (map cnt xs) = length (concat (map outs xs))"
  by (induction xs) (simp_all add: cnt_exact)

end

subsection \<open>Identity attributes\<close>

fun has_group :: "jhandler \<Rightarrow> bool" where
  "has_group JBase = False"
| "has_group (JAttrs h bs) = has_group h"
| "has_group (JGroup h g) = True"

fun handler_attrs :: "jhandler \<Rightarrow> attr list" where
  "handler_attrs JBase = []"
| "handler_attrs (JAttrs h bs) = handler_attrs h @ bs"
| "handler_attrs (JGroup h g) = handler_attrs h"

lemma jhandle_no_group: "\<not> has_group h \<Longrightarrow> jhandle h as = handler_attrs h @ as"
  by (induction h arbitrary: as) auto

text \<open>C32: as long as no group is open, a record carries the identity attributes current at the time
  it is logged, at top level and after its own attributes, whatever \<open>With\<close> calls built the
  logger and whatever the attributes were when it was built.\<close>

theorem identity_attrs_current:
  assumes "\<not> has_group (inner h)"
  shows "records (Handle (WithAttrs h bs) r (SetClusterAttrs new c)) =
    records c @ [r\<lparr>eattrs := handler_attrs (inner h) @ bs @ eattrs r @ new\<rparr>]"
  using assms by (simp add: Handle_def WithAttrs_def SetClusterAttrs_def jhandle_no_group Let_def)

theorem identity_attrs_current_witness:
  "records (Handle (WithAttrs (WithClusterAttrs JBase) [(''a'', ABool True)])
      \<lparr>elevel = LInfo, emsg = ''two'', eattrs = []\<rparr>
      (SetClusterAttrs [(''cluster'', AStr ''new-name'')] init_collector)) =
    [\<lparr>elevel = LInfo, emsg = ''two'', eattrs = [(''a'', ABool True), (''cluster'', AStr ''new-name'')]\<rparr>]"
proof -
  have "\<not> has_group (inner (WithClusterAttrs JBase))" by (simp add: WithClusterAttrs_def)
  from identity_attrs_current [OF this] show ?thesis
    by (simp add: WithClusterAttrs_def init_collector_def)
qed

text \<open>With an open group the identity attributes land inside it, as the comment in the code warns.\<close>

lemma group_captures_identity:
  "records (Handle (WithGroup (WithClusterAttrs JBase) g) r c) =
     records c @ [r\<lparr>eattrs := (if eattrs r = [] \<and> clusterAttrs c = [] then []
       else [(g, AObj (eattrs r @ clusterAttrs c))])\<rparr>]"
  by (simp add: Handle_def WithGroup_def WithClusterAttrs_def Let_def)

subsection \<open>Quiet steps\<close>

text \<open>
  A quiet step logs operational lines only: no event id is spent and none is written.  What runs
  beside the event stream (identity refresh, heartbeats, push diagnostics) is made of such steps.
\<close>

definition attrs_ok :: "collector \<Rightarrow> bool" where
  "attrs_ok c = (''event_id'' \<notin> fst ` set (clusterAttrs c))"

definition quiet :: "collector \<Rightarrow> collector \<Rightarrow> bool" where
  "quiet c c' = (nextEventID c' = nextEventID c \<and> prefix (records c) (records c') \<and>
     event_ids (drop (length (records c)) (records c')) = [])"

lemma event_ids_append [simp]: "event_ids (xs @ ys) = event_ids xs @ event_ids ys"
  by (simp add: event_ids_def)

lemma event_ids_Nil [simp]: "event_ids [] = []"
  by (simp add: event_ids_def)

lemma event_ids_plain [simp]:
  "''event_id'' \<notin> fst ` set attrs \<Longrightarrow> event_ids [\<lparr>elevel = l, emsg = msg, eattrs = attrs\<rparr>] = []"
  by (simp add: event_ids_def eid_plain)

lemma event_ids_line [simp]:
  "''event_id'' \<notin> fst ` set attrs \<Longrightarrow> ''event_id'' \<notin> fst ` set as \<Longrightarrow>
   event_ids [\<lparr>elevel = l, emsg = msg, eattrs = attrs @ as\<rparr>] = []"
  by (rule event_ids_plain) (simp add: image_Un)

lemma event_ids_rec [simp]:
  "event_ids [\<lparr>elevel = l, emsg = msg, eattrs = (''kind'', AStr kind) # (''event_id'', AU64 n) # rest\<rparr>] = [n]"
  by (simp add: event_ids_def)

lemma quiet_refl [simp]: "quiet c c"
  by (simp add: quiet_def)

lemma quiet_trans: "quiet c c' \<Longrightarrow> quiet c' c'' \<Longrightarrow> quiet c c''"
  by (auto simp: quiet_def prefix_def)

lemma quiet_event_ids: "quiet c c' \<Longrightarrow> event_ids (records c') = event_ids (records c)"
  by (auto simp: quiet_def prefix_def)

lemma quiet_Set [simp]: "quiet c (SetClusterAttrs as c)"
  by (simp add: quiet_def SetClusterAttrs_def)

lemma Set_attrs [simp]: "clusterAttrs (SetClusterAttrs as c) = as"
  by (simp add: SetClusterAttrs_def)

lemma quiet_Log_at:
  "attrs_ok c \<Longrightarrow> ''event_id'' \<notin> fst ` set attrs \<Longrightarrow> quiet c (Log_at l msg attrs c)"
  by (simp add: quiet_def attrs_ok_def)

lemma Log_at_attrs: "clusterAttrs (Log_at l msg attrs c) = clusterAttrs c"
  by simp

subsection \<open>Calls seen as the lines they log\<close>

text \<open>
  A call that only logs is given by its lines.  \<open>call_logs f os\<close> says that the call \<open>f\<close> logs
  the lines \<open>os\<close> and does nothing else; the lines are determined by the call.
\<close>

fun line_ok :: "out \<Rightarrow> bool" where
  "line_ok (ORec event kind rest) = True"
| "line_ok (OLog l msg attrs) = (l \<noteq> LDebug \<and> ''event_id'' \<notin> fst ` set attrs)"

fun operational :: "out \<Rightarrow> bool" where
  "operational (ORec event kind rest) = False"
| "operational (OLog l msg attrs) = (l \<noteq> LDebug \<and> ''event_id'' \<notin> fst ` set attrs)"

definition call_logs :: "(collector \<Rightarrow> collector) \<Rightarrow> out list \<Rightarrow> bool" where
  "call_logs f os \<longleftrightarrow> f = log_outs os \<and> list_all line_ok os"

lemma line_ok_wf: "list_all line_ok os \<Longrightarrow> list_all wf_out os"
  by (induction os) (auto elim: line_ok.elims)

lemma rec_line_ok: "list_all is_rec os \<Longrightarrow> list_all line_ok os"
  by (induction os) (auto elim: is_rec.elims)

lemma operational_line_ok: "list_all operational os \<Longrightarrow> list_all line_ok os \<and> n_recs os = 0"
  by (induction os) (auto elim: operational.elims)

lemma stamp_inj:
  "list_all line_ok os \<Longrightarrow> list_all line_ok os' \<Longrightarrow> stamp n [] os = stamp n [] os' \<Longrightarrow> os = os'"
proof (induction os arbitrary: n os')
  case Nil
  then show ?case by (cases os') (auto elim: line_ok.elims split: if_splits)
next
  case (Cons x os)
  then obtain y ys where os': "os' = y # ys" by (cases os'; cases x) (auto split: if_splits)
  from Cons.prems os' have "x = y \<and> (\<exists>m. stamp m [] os = stamp m [] ys)"
    by (cases x; cases y) (auto split: if_splits)
  with Cons os' show ?case by auto
qed

lemma call_logs_unique: "call_logs f os \<Longrightarrow> call_logs f os' \<Longrightarrow> os = os'"
proof -
  assume "call_logs f os" "call_logs f os'"
  then have ok: "list_all line_ok os" "list_all line_ok os'" "log_outs os init_collector = log_outs os' init_collector"
    by (auto simp: call_logs_def)
  then have "stamp 0 [] os = stamp 0 [] os'" by (simp add: log_outs_eq init_collector_def)
  with ok stamp_inj show ?thesis by blast
qed

lemma call_logs_nothing: "call_logs (\<lambda>c. c) os \<Longrightarrow> os = []"
  using call_logs_unique [of "\<lambda>c. c" os "[]"] by (simp add: call_logs_def fun_eq_iff)

end
