(* ===== verification/KObjects.thy ===== *)
theory KObjects
  imports Event_Log
begin

section \<open>The Kubernetes objects the program reads\<close>

text \<open>
  The API types of Kubernetes are declared outside the repository.  The records below hold the
  fields the program reads and the fields its cache transforms clear, with the API's names.  A
  \<open>blob\<close> is a value the program never looks into, with \<^const>\<open>None\<close> for the zero value
  (\<^verbatim>\<open>nil\<close> or an empty struct); a label map is an association list, \<^const>\<open>None\<close> for
  a nil map; a pointer to a scalar is an option.
\<close>

type_synonym blob = "string option"
type_synonym labels = "(string \<times> string) list option"

subsection \<open>Metadata\<close>

record owner_ref =
  or_Kind :: string
  or_Name :: string
  or_Controller :: "bool option"

record object_meta =
  m_Name :: string
  m_Namespace :: string
  m_UID :: string
  m_Labels :: labels
  m_Annotations :: blob
  m_ManagedFields :: blob
  m_Finalizers :: blob
  m_OwnerReferences :: "owner_ref list"

subsection \<open>Pods and replica sets\<close>

record container =
  c_Name :: string
  c_Image :: string
  c_Command :: blob
  c_Args :: blob
  c_Env :: blob
  c_EnvFrom :: blob
  c_VolumeMounts :: blob
  c_VolumeDevices :: blob
  c_Resources :: blob
  c_LivenessProbe :: blob
  c_ReadinessProbe :: blob
  c_StartupProbe :: blob
  c_Lifecycle :: blob
  c_SecurityContext :: blob
  c_Ports :: blob

record ephemeral_common =
  e_Name :: string
  e_Image :: string
  e_Command :: blob
  e_Args :: blob
  e_Env :: blob
  e_EnvFrom :: blob
  e_VolumeMounts :: blob
  e_VolumeDevices :: blob
  e_Resources :: blob
  e_LivenessProbe :: blob
  e_ReadinessProbe :: blob
  e_StartupProbe :: blob
  e_Lifecycle :: blob
  e_SecurityContext :: blob
  e_Ports :: blob

record container_status =
  cs_Name :: string
  cs_ImageID :: string
  cs_LastTerminationState :: blob

record pod_spec =
  ps_InitContainers :: "container list"
  ps_Containers :: "container list"
  ps_EphemeralContainers :: "ephemeral_common list"
  ps_Volumes :: blob
  ps_NodeSelector :: blob
  ps_Tolerations :: blob
  ps_Affinity :: blob
  ps_TopologySpreadConstraints :: blob
  ps_SchedulingGates :: blob
  ps_ReadinessGates :: blob
  ps_ImagePullSecrets :: blob
  ps_HostAliases :: blob

record pod_status =
  pt_Phase :: string
  pt_Conditions :: blob
  pt_PodIPs :: blob
  pt_ContainerStatuses :: "container_status list"
  pt_InitContainerStatuses :: "container_status list"
  pt_EphemeralContainerStatuses :: "container_status list"

record pod =
  p_Meta :: object_meta
  p_Spec :: pod_spec
  p_Status :: pod_status

record replica_set =
  rs_Meta :: object_meta
  rs_Spec :: blob
  rs_Status :: blob

subsection \<open>Services\<close>

text \<open>\<open>sp_TargetPort\<close> is the port as \<^verbatim>\<open>IntOrString.String()\<close> renders it.\<close>

record service_port =
  sp_Name :: string
  sp_Port :: i32
  sp_TargetPort :: string
  sp_Protocol :: string
  sp_NodePort :: i32
  sp_AppProtocol :: "string option"

record lb_ingress =
  lb_IP :: string
  lb_Hostname :: string

record service =
  s_Meta :: object_meta
  s_Type :: string
  s_ClusterIPs :: "string list option"
  s_ExternalIPs :: "string list option"
  s_ExternalName :: string
  s_Selector :: labels
  s_Ports :: "service_port list"
  s_LoadBalancer :: "lb_ingress list"
  s_Conditions :: blob

subsection \<open>Ingresses and ingress classes\<close>

record ing_service_backend =
  ib_Name :: string
  ib_PortName :: string
  ib_PortNumber :: i32

record ing_resource_backend =
  ir_Kind :: string
  ir_Name :: string

record ing_backend =
  bk_Service :: "ing_service_backend option"
  bk_Resource :: "ing_resource_backend option"

record ing_http_path =
  hp_Path :: string
  hp_PathType :: "string option"
  hp_Backend :: ing_backend

record ing_spec_rule =
  ru_Host :: string
  ru_HTTP :: "ing_http_path list option"

record ing_spec_tls =
  it_Hosts :: "string list"
  it_SecretName :: string

record ingress =
  i_Meta :: object_meta
  i_IngressClassName :: "string option"
  i_DefaultBackend :: "ing_backend option"
  i_Rules :: "ing_spec_rule list"
  i_TLS :: "ing_spec_tls list"
  i_LoadBalancer :: "lb_ingress list"

record ingress_class =
  ic_Meta :: object_meta
  ic_Controller :: string

subsection \<open>Endpoint slices\<close>

record endpoint =
  ep_Addresses :: "string list"
  ep_Ready :: "bool option"
  ep_Hostname :: "string option"
  ep_NodeName :: "string option"
  ep_Zone :: "string option"

record endpoint_port =
  eport_Name :: "string option"
  eport_Port :: "i32 option"
  eport_Protocol :: "string option"

record endpoint_slice =
  es_Meta :: object_meta
  es_AddressType :: string
  es_Endpoints :: "endpoint list"
  es_Ports :: "endpoint_port list"

subsection \<open>Custom resources\<close>

text \<open>
  The content of an unstructured object: the values a decoded JSON document holds, with
  \<^verbatim>\<open>map[string]any\<close> as an association list and integers as \<^verbatim>\<open>int64\<close>.
\<close>

datatype uval =
    UNull
  | UBool bool
  | UInt i64
  | UFloat string
  | UString string
  | USeq "uval list"
  | UMap "(string \<times> uval) list"

type_synonym uobject = "(string \<times> uval) list"

record gvr =
  g_Group :: string
  g_Version :: string
  g_Resource :: string

subsection \<open>Any\<close>

text \<open>
  A value of type \<^verbatim>\<open>any\<close> as the informer hands it over: a pointer to one of the types
  above, the tombstone \<^verbatim>\<open>cache.DeletedFinalStateUnknown\<close> around another such value, or
  something of a type the program does not know.
\<close>

datatype anyobj =
    OPod pod
  | OReplicaSet replica_set
  | OService service
  | OIngress ingress
  | OIngressClass ingress_class
  | OEndpointSlice endpoint_slice
  | OUnstructured uobject
  | OTombstone string anyobj
  | OOther string

text \<open>The type assertions \<^verbatim>\<open>obj.(*T)\<close>.\<close>

definition as_Pod :: "anyobj \<Rightarrow> pod option" where
  "as_Pod x = (case x of OPod p \<Rightarrow> Some p | _ \<Rightarrow> None)"

definition as_ReplicaSet :: "anyobj \<Rightarrow> replica_set option" where
  "as_ReplicaSet x = (case x of OReplicaSet p \<Rightarrow> Some p | _ \<Rightarrow> None)"

definition as_Service :: "anyobj \<Rightarrow> service option" where
  "as_Service x = (case x of OService p \<Rightarrow> Some p | _ \<Rightarrow> None)"

definition as_Ingress :: "anyobj \<Rightarrow> ingress option" where
  "as_Ingress x = (case x of OIngress p \<Rightarrow> Some p | _ \<Rightarrow> None)"

definition as_IngressClass :: "anyobj \<Rightarrow> ingress_class option" where
  "as_IngressClass x = (case x of OIngressClass p \<Rightarrow> Some p | _ \<Rightarrow> None)"

definition as_EndpointSlice :: "anyobj \<Rightarrow> endpoint_slice option" where
  "as_EndpointSlice x = (case x of OEndpointSlice p \<Rightarrow> Some p | _ \<Rightarrow> None)"

definition as_Unstructured :: "anyobj \<Rightarrow> uobject option" where
  "as_Unstructured x = (case x of OUnstructured p \<Rightarrow> Some p | _ \<Rightarrow> None)"

lemmas cast_defs = as_Pod_def as_ReplicaSet_def as_Service_def as_Ingress_def as_IngressClass_def
  as_EndpointSlice_def as_Unstructured_def

end
