(* ===== verification/Informer.thy ===== *)
theory Informer
  imports Event_Log KObjects
begin

section \<open>Event registration and sorted dumps: informer.go, helpers.go\<close>

subsection \<open>Ordering: \<open>sort.Slice\<close>\<close>

text \<open>
  \<^verbatim>\<open>sort.Slice\<close> sorts by a comparison function and leaves the order of equal elements
  open; the model is the insertion sort Go itself runs on short slices.  The theorem
  \<open>sort_slice_unique\<close> below shows that the choice is invisible wherever the comparison tells
  any two elements of the slice apart, which the unique names of Kubernetes objects ensure.
\<close>

fun insert_by :: "('a \<Rightarrow> 'a \<Rightarrow> bool) \<Rightarrow> 'a \<Rightarrow> 'a list \<Rightarrow> 'a list" where
  "insert_by lt x [] = [x]"
| "insert_by lt x (y # ys) = (if lt x y then x # y # ys else y # insert_by lt x ys)"

definition sort_slice :: "('a \<Rightarrow> 'a \<Rightarrow> bool) \<Rightarrow> 'a list \<Rightarrow> 'a list" where
  "sort_slice lt xs = fold (insert_by lt) xs []"

definition nsNameLess :: "string \<Rightarrow> string \<Rightarrow> string \<Rightarrow> string \<Rightarrow> bool" where
  "nsNameLess ns1 n1 ns2 n2 = (if ns1 \<noteq> ns2 then ns1 < ns2 else n1 < n2)"

lemma mset_insert_by [simp]: "mset (insert_by lt x xs) = add_mset x (mset xs)"
  by (induction xs) auto

lemma mset_sort_slice [simp]: "mset (sort_slice lt xs) = mset xs"
proof -
  have "mset (fold (insert_by lt) xs ys) = mset xs + mset ys" for ys
    by (induction xs arbitrary: ys) auto
  then show ?thesis by (simp add: sort_slice_def)
qed

lemma set_sort_slice [simp]: "set (sort_slice lt xs) = set xs"
  by (metis mset_sort_slice set_mset_mset)

lemma length_sort_slice [simp]: "length (sort_slice lt xs) = length xs"
  by (metis mset_sort_slice size_mset)

text \<open>What \<^verbatim>\<open>sort.Slice\<close> asks of its comparison: a strict weak ordering.\<close>

locale comparison =
  fixes lt :: "'a \<Rightarrow> 'a \<Rightarrow> bool"
  assumes lt_irrefl: "\<not> lt x x"
    and lt_trans: "lt x y \<Longrightarrow> lt y z \<Longrightarrow> lt x z"
    and lt_weak: "lt x y \<Longrightarrow> lt x z \<or> lt z y"
begin

lemma lt_asym: "lt x y \<Longrightarrow> \<not> lt y x"
  using lt_irrefl lt_trans by blast

lemma sorted_insert_by:
  "sorted_wrt (\<lambda>x y. \<not> lt y x) ys \<Longrightarrow> sorted_wrt (\<lambda>x y. \<not> lt y x) (insert_by lt x ys)"
proof (induction ys)
  case Nil
  then show ?case by simp
next
  case (Cons y ys)
  have set: "set (insert_by lt x ys) = insert x (set ys)"
    by (metis mset_insert_by set_mset_add_mset_insert set_mset_mset)
  show ?case
  proof (cases "lt x y")
    case True
    with Cons.prems show ?thesis by (auto dest: lt_asym) (meson lt_asym lt_weak)
  next
    case False
    with Cons show ?thesis by (auto simp: set)
  qed
qed

lemma sorted_sort_slice: "sorted_wrt (\<lambda>x y. \<not> lt y x) (sort_slice lt xs)"
proof -
  have "sorted_wrt (\<lambda>x y. \<not> lt y x) ys \<Longrightarrow>
      sorted_wrt (\<lambda>x y. \<not> lt y x) (fold (insert_by lt) xs ys)" for ys
    by (induction xs arbitrary: ys) (auto intro: sorted_insert_by)
  then show ?thesis by (simp add: sort_slice_def)
qed

definition separated :: "'a set \<Rightarrow> bool" where
  "separated A \<longleftrightarrow> (\<forall>x\<in>A. \<forall>y\<in>A. x \<noteq> y \<longrightarrow> lt x y \<or> lt y x)"

lemma sorted_unique:
  assumes "sorted_wrt (\<lambda>x y. \<not> lt y x) xs" "sorted_wrt (\<lambda>x y. \<not> lt y x) ys"
    and "mset xs = mset ys" "separated (set xs)"
  shows "xs = ys"
  using assms
proof (induction xs arbitrary: ys)
  case Nil
  then show ?case by simp
next
  case (Cons x xs)
  then obtain y ys' where ys: "ys = y # ys'" by (cases ys) auto
  have sets: "set (x # xs) = set ys" using Cons.prems(3) by (metis set_mset_mset)
  have "x = y"
  proof (rule ccontr)
    assume ne: "x \<noteq> y"
    with sets ys have "y \<in> set xs" "x \<in> set ys'" by auto
    with Cons.prems(1,2) ys have "\<not> lt y x" "\<not> lt x y" by auto
    with Cons.prems(4) ne \<open>y \<in> set xs\<close> show False by (auto simp: separated_def)
  qed
  moreover have "xs = ys'"
    using Cons.prems ys \<open>x = y\<close> by (intro Cons.IH) (auto simp: separated_def)
  ultimately show ?case by (simp add: ys)
qed

lemma sort_slice_unique:
  assumes "mset xs = mset ys" "separated (set xs)" "sorted_wrt (\<lambda>x y. \<not> lt y x) ys"
  shows "sort_slice lt xs = ys"
  using assms by (intro sorted_unique sorted_sort_slice) auto

lemma sort_slice_perm:
  "mset xs = mset ys \<Longrightarrow> separated (set xs) \<Longrightarrow> sort_slice lt xs = sort_slice lt ys"
  by (rule sort_slice_unique) (auto intro: sorted_sort_slice)

end

text \<open>A comparison of keys in a linear order is one.\<close>

lemma comparison_key: "comparison (\<lambda>x y. key x < (key y :: 'k :: linorder))"
  by unfold_locales auto

lemma nsNameLess_key: "nsNameLess ns1 n1 ns2 n2 \<longleftrightarrow> ns1 < ns2 \<or> ns1 = ns2 \<and> n1 < n2"
  by (auto simp: nsNameLess_def)

lemma comparison_nsName: "comparison (\<lambda>x y. nsNameLess (ns x) (nm x) (ns y) (nm y))"
proof
  fix x y z
  show "\<not> nsNameLess (ns x) (nm x) (ns x) (nm x)" by (simp add: nsNameLess_key)
  show "nsNameLess (ns x) (nm x) (ns y) (nm y) \<Longrightarrow> nsNameLess (ns y) (nm y) (ns z) (nm z) \<Longrightarrow>
      nsNameLess (ns x) (nm x) (ns z) (nm z)"
    by (auto simp: nsNameLess_key)
  show "nsNameLess (ns x) (nm x) (ns y) (nm y) \<Longrightarrow>
      nsNameLess (ns x) (nm x) (ns z) (nm z) \<or> nsNameLess (ns z) (nm z) (ns y) (nm y)"
    by (auto simp: nsNameLess_key)
qed

subsection \<open>\<open>DumpSorted\<close>\<close>

definition DumpSorted ::
  "string \<Rightarrow> 'a list \<Rightarrow> ('a \<Rightarrow> 'a \<Rightarrow> bool) \<Rightarrow> ('a \<Rightarrow> collector \<Rightarrow> nat \<times> collector) \<Rightarrow>
   collector \<Rightarrow> 'a list \<times> collector" where
  "DumpSorted kind items lt emit c =
     (let items' = sort_slice lt items;
          (emitted, c') = fold (\<lambda>it (n, c). case emit it c of (k, c') \<Rightarrow> (n + k, c')) items' (0, c)
      in (items', Log_at LInfo ''initial snapshot''
            [(''kind'', AStr kind), (''cached'', AInt (int (length items'))), (''emitted'', AInt (int emitted))] c'))"

text \<open>
  \<open>DumpSorted\<close> sorts the caller's slice in place: the sorted list is part of the result, and
  the callers go on with it.
\<close>

definition dump_outs :: "string \<Rightarrow> ('a \<Rightarrow> out list) \<Rightarrow> ('a \<Rightarrow> nat) \<Rightarrow> 'a list \<Rightarrow> out list" where
  "dump_outs kind outs cnt items =
     concat (map outs items) @ [OLog LInfo ''initial snapshot''
       [(''kind'', AStr kind), (''cached'', AInt (int (length items))),
        (''emitted'', AInt (int (sum_list (map cnt items))))]]"

context emitter
begin

lemma DumpSorted_outs:
  "DumpSorted kind items lt emit c =
     (sort_slice lt items, log_outs (dump_outs kind outs cnt (sort_slice lt items)) c)"
  by (simp add: DumpSorted_def Let_def fold_emit dump_outs_def log_outs_def)

end

subsection \<open>\<open>OnEvents\<close>\<close>

text \<open>
  The informer delivers an add, an update or a delete; the handlers drop it before the initial sync
  is over, assert the type and dispatch.  The zero value of the pointer type is \<^const>\<open>None\<close>.
\<close>

datatype notification = NAdd anyobj | NUpdate anyobj anyobj | NDelete anyobj

definition extractDeleted :: "(anyobj \<Rightarrow> 't option) \<Rightarrow> anyobj \<Rightarrow> 't option" where
  "extractDeleted cast obj =
     (case cast obj of Some t \<Rightarrow> Some t
      | None \<Rightarrow> (case obj of OTombstone key x \<Rightarrow> cast x | _ \<Rightarrow> None))"

definition OnEvents ::
  "(anyobj \<Rightarrow> 't option) \<Rightarrow> (string \<Rightarrow> 't \<Rightarrow> 't option \<Rightarrow> collector \<Rightarrow> collector) \<Rightarrow>
   ('t \<Rightarrow> collector \<Rightarrow> collector) \<Rightarrow> bool \<Rightarrow> notification \<Rightarrow> collector \<Rightarrow> collector" where
  "OnEvents cast addUpdate del synced n c =
     (case n of
        NAdd obj \<Rightarrow>
          if \<not> synced then c
          else (case cast obj of Some t \<Rightarrow> addUpdate ''ADD'' t None c | None \<Rightarrow> c)
      | NUpdate oldObj newObj \<Rightarrow>
          if \<not> synced then c
          else (case cast newObj of None \<Rightarrow> c
                | Some newT \<Rightarrow> addUpdate ''UPDATE'' newT (cast oldObj) c)
      | NDelete obj \<Rightarrow>
          if \<not> synced then c
          else (case extractDeleted cast obj of None \<Rightarrow> c | Some t \<Rightarrow> del t c))"

text \<open>
  The contract of a handler registered with \<open>OnEvents\<close>: its callbacks log what their abstract
  versions say.  Then a notification logs the callback's lines, or nothing before the sync is over
  or for an object of another type.
\<close>

locale event_handler =
  fixes cast :: "anyobj \<Rightarrow> 't option"
    and addUpdate :: "string \<Rightarrow> 't \<Rightarrow> 't option \<Rightarrow> collector \<Rightarrow> collector"
    and del :: "'t \<Rightarrow> collector \<Rightarrow> collector"
    and au_outs :: "string \<Rightarrow> 't \<Rightarrow> 't option \<Rightarrow> out list"
    and del_outs :: "'t \<Rightarrow> out list"
  assumes addUpdate_outs: "addUpdate event t old c = log_outs (au_outs event t old) c"
    and del_outs: "del t c = log_outs (del_outs t) c"
    and au_rec: "list_all is_rec (au_outs event t old)"
    and del_rec: "list_all is_rec (del_outs t)"
    and cast_tombstone: "cast (OTombstone key x) = None"
begin

definition handler_outs :: "bool \<Rightarrow> notification \<Rightarrow> out list" where
  "handler_outs synced n = (if \<not> synced then [] else
     (case n of
        NAdd obj \<Rightarrow> (case cast obj of Some t \<Rightarrow> au_outs ''ADD'' t None | None \<Rightarrow> [])
      | NUpdate old new \<Rightarrow> (case cast new of Some t \<Rightarrow> au_outs ''UPDATE'' t (cast old) | None \<Rightarrow> [])
      | NDelete obj \<Rightarrow> (case extractDeleted cast obj of Some t \<Rightarrow> del_outs t | None \<Rightarrow> [])))"

lemma OnEvents_outs: "OnEvents cast addUpdate del synced n c = log_outs (handler_outs synced n) c"
  by (auto simp: OnEvents_def handler_outs_def addUpdate_outs del_outs
      split: notification.splits option.splits)

lemma handler_outs_rec: "list_all is_rec (handler_outs synced n)"
  by (auto simp: handler_outs_def au_rec del_rec split: notification.splits option.splits)

lemma handler_outs_all:
  assumes "\<And>event t old. list_all P (au_outs event t old)" and "\<And>t. list_all P (del_outs t)"
  shows "list_all P (handler_outs synced n)"
  using assms by (auto simp: handler_outs_def split: notification.split option.split)

lemma tombstone_as_delete:
  "cast x = Some t \<Longrightarrow> handler_outs True (NDelete (OTombstone key x)) = handler_outs True (NDelete x)"
  by (simp add: handler_outs_def extractDeleted_def cast_tombstone)

end

end
