(* ===== verification/Image.thy ===== *)
theory Image
  imports Go_Strings
begin

section \<open>Image references: internal/collector/image.go\<close>

text \<open>
  \<open>SplitImage\<close> takes the image of a pod specification apart into repository, tag and digest,
  with the digest the kubelet resolved (the image id of the container status) as the fallback;
  \<open>SplitImageName\<close> separates the registry host from the path.
\<close>

function colon_loop :: "string \<Rightarrow> nat \<Rightarrow> int" where
  "colon_loop s i =
     (if i < length s then (if s ! i = CHR '':'' then int i else colon_loop s (Suc i)) else -1)"
  by pat_completeness auto
termination
  by (relation "measure (\<lambda>(s, i). length s - i)") auto

declare colon_loop.simps [simp del]

definition colonAfter :: "string \<Rightarrow> int \<Rightarrow> int" where
  "colonAfter s from = colon_loop s (nat (from + 1))"

definition SplitImage :: "string \<Rightarrow> string \<Rightarrow> string \<times> string \<times> string" where
  "SplitImage spec imageID =
     (let at = last_index spec (CHR ''@'');
          digest = (if 0 \<le> at then slice_from spec (at + 1) else []);
          s = (if 0 \<le> at then slice_to spec at else spec);
          c = colonAfter s (last_index s (CHR ''/''));
          tag = (if 0 \<le> c then slice_from s (c + 1) else []);
          repo = (if 0 \<le> c then slice_to s c else s)
      in if digest = [] \<and> imageID \<noteq> [] then
           (let id = trim_prefix imageID ''docker-pullable://'';
                at' = last_index id (CHR ''@'')
            in if 0 \<le> at' then
                 (let digest' = slice_from id (at' + 1);
                      cand = slice_to id at'
                  in if (\<not> contains repo ''/'' \<or> \<not> contains repo ''.'') \<and> cand \<noteq> []
                     then (cand, tag, digest') else (repo, tag, digest'))
               else (repo, tag, digest))
         else (repo, tag, digest))"

definition SplitImageName :: "string \<Rightarrow> string \<times> string" where
  "SplitImageName full =
     (let i = index_byte full (CHR ''/'');
          first = slice_to full i;
          hosted = 0 < i \<and> (contains_any first ''.:'' \<or> first = ''localhost'');
          registry = (if hosted then first else []);
          full' = (if hosted then slice_from full (i + 1) else full)
      in (if registry = ''docker.io'' then trim_prefix full' ''library/'' else full', registry))"

subsection \<open>The colon search\<close>

lemma colon_loop_none: "CHR '':'' \<notin> set (drop i s) \<Longrightarrow> colon_loop s i = -1"
proof (induction s i rule: colon_loop.induct)
  case (1 s i)
  show ?case
  proof (cases "i < length s")
    case True
    then have "drop i s = s ! i # drop (Suc i) s" by (simp add: Cons_nth_drop_Suc)
    with 1 True show ?thesis by (auto simp: colon_loop.simps [of s i])
  next
    case False
    then show ?thesis by (simp add: colon_loop.simps [of s i])
  qed
qed

lemma colon_loop_first:
  "drop i s = a @ CHR '':'' # b \<Longrightarrow> CHR '':'' \<notin> set a \<Longrightarrow> colon_loop s i = int (i + length a)"
proof (induction s i arbitrary: a rule: colon_loop.induct)
  case (1 s i)
  then have lt: "i < length s" by (metis append_is_Nil_conv drop_all leI list.distinct(1))
  then have d: "drop i s = s ! i # drop (Suc i) s" by (simp add: Cons_nth_drop_Suc)
  show ?case
  proof (cases a)
    case Nil
    with "1.prems" d lt show ?thesis by (simp add: colon_loop.simps [of s i])
  next
    case (Cons x a')
    with "1.prems" d have "s ! i \<noteq> CHR '':''" "drop (Suc i) s = a' @ CHR '':'' # b" "CHR '':'' \<notin> set a'"
      by auto
    with "1.IH" [of a'] lt Cons show ?thesis by (simp add: colon_loop.simps [of s i])
  qed
qed

definition last_segment :: "string \<Rightarrow> string" where
  "last_segment s = drop (nat (last_index s (CHR ''/'') + 1)) s"

lemma last_segment_no_slash: "CHR ''/'' \<notin> set (last_segment s)"
proof (cases "0 \<le> last_index s (CHR ''/'')")
  case True
  then show ?thesis by (rule last_index_E) (simp add: last_segment_def nat_add_distrib)
next
  case False
  then have "CHR ''/'' \<notin> set s" by (simp add: last_index_nonneg_iff)
  then show ?thesis by (simp add: last_segment_def)
qed

lemma last_segment_append:
  assumes "CHR ''/'' \<notin> set t"
  shows "last_index (s @ t) (CHR ''/'') = last_index s (CHR ''/'')"
    and "last_segment (s @ t) = last_segment s @ t"
proof -
  show eq: "last_index (s @ t) (CHR ''/'') = last_index s (CHR ''/'')"
  proof (cases "CHR ''/'' \<in> set s")
    case True
    then obtain xs ys where s: "s = xs @ CHR ''/'' # ys" "CHR ''/'' \<notin> set ys"
      by (meson split_list_last)
    then have "s @ t = xs @ CHR ''/'' # (ys @ t)" by simp
    with s assms show ?thesis by (metis (no_types) Un_iff last_index_split set_append)
  next
    case False
    with assms show ?thesis by simp
  qed
  have "nat (last_index s (CHR ''/'') + 1) \<le> length s"
  proof (cases "0 \<le> last_index s (CHR ''/'')")
    case True
    then show ?thesis by (rule last_index_E) (simp add: nat_add_distrib)
  qed simp
  with eq show "last_segment (s @ t) = last_segment s @ t" by (simp add: last_segment_def)
qed

lemma colon_split_cases:
  obtains (none) "colonAfter s (last_index s (CHR ''/'')) = -1" "CHR '':'' \<notin> set (last_segment s)"
  | (some) a b where "s = a @ CHR '':'' # b" "CHR ''/'' \<notin> set b" "CHR '':'' \<notin> set (last_segment a)"
      "colonAfter s (last_index s (CHR ''/'')) = int (length a)"
proof (cases "CHR '':'' \<in> set (last_segment s)")
  case False
  then show ?thesis by (intro none) (auto simp: colonAfter_def last_segment_def colon_loop_none)
next
  case True
  define p where "p = nat (last_index s (CHR ''/'') + 1)"
  from True obtain x b where x: "last_segment s = x @ CHR '':'' # b" "CHR '':'' \<notin> set x"
    by (meson split_list_first)
  then have d: "drop p s = x @ CHR '':'' # b" by (simp add: last_segment_def p_def)
  then have len: "p \<le> length s" by (metis append_is_Nil_conv drop_all linear list.distinct(1))
  have slash: "CHR ''/'' \<notin> set b" using last_segment_no_slash [of s] x by auto
  have s: "s = (take p s @ x) @ CHR '':'' # b" using d by (metis append.assoc append_take_drop_id)
  have "last_segment s = last_segment (take p s @ x) @ CHR '':'' # b"
    using last_segment_append(2) [of "CHR '':'' # b" "take p s @ x"] slash s by auto
  with x have "last_segment (take p s @ x) = x" by simp
  moreover have "colonAfter s (last_index s (CHR ''/'')) = int (p + length x)"
    using colon_loop_first [OF d x(2)] by (simp add: colonAfter_def p_def)
  ultimately show ?thesis using s slash x(2) len by (intro some [of "take p s @ x" b]) auto
qed

subsection \<open>The two halves of \<open>SplitImage\<close>\<close>

text \<open>
  \<open>split_tag\<close> is the part of \<open>SplitImage\<close> between the digest and the fallback; the
  lemmas below describe it by the shape of its argument.
\<close>

definition split_tag :: "string \<Rightarrow> string \<times> string" where
  "split_tag s = (let c = colonAfter s (last_index s (CHR ''/''))
     in if 0 \<le> c then (slice_to s c, slice_from s (c + 1)) else (s, []))"

lemma split_tag_tagged:
  assumes "CHR '':'' \<notin> set (last_segment r)" "CHR ''/'' \<notin> set t"
  shows "split_tag (r @ CHR '':'' # t) = (r, t)"
proof -
  have "last_segment (r @ CHR '':'' # t) = last_segment r @ CHR '':'' # t"
    using last_segment_append(2) [of "CHR '':'' # t" r] assms(2) by simp
  then have "colonAfter (r @ CHR '':'' # t) (last_index (r @ CHR '':'' # t) (CHR ''/'')) = int (length r)"
  proof (cases rule: colon_split_cases [of "r @ CHR '':'' # t"])
    case (some a b)
    have "last_segment (a @ CHR '':'' # b) = last_segment a @ CHR '':'' # b"
      using last_segment_append(2) [of "CHR '':'' # b" a] some(2) by simp
    with some \<open>last_segment (r @ CHR '':'' # t) = _\<close>
    have "last_segment a @ CHR '':'' # b = last_segment r @ CHR '':'' # t" by simp
    then have "b = t" by (rule split_char_unique(2) [OF _ some(3) assms(1)])
    with some show ?thesis by simp
  qed simp
  then show ?thesis by (simp add: split_tag_def)
qed

lemma split_tag_untagged: "CHR '':'' \<notin> set (last_segment r) \<Longrightarrow> split_tag r = (r, [])"
  by (simp add: split_tag_def colonAfter_def last_segment_def colon_loop_none)

lemma split_tag_cases:
  obtains (untagged) "split_tag s = (s, [])" | (tagged) r t where "s = r @ CHR '':'' # t" "split_tag s = (r, t)"
proof (cases rule: colon_split_cases [of s])
  case none
  then show ?thesis by (intro untagged) (simp add: split_tag_untagged)
next
  case (some a b)
  then show ?thesis by (intro tagged [of a b]) (auto simp: split_tag_tagged)
qed

lemma SplitImage_digest:
  "CHR ''@'' \<notin> set d \<Longrightarrow> d \<noteq> [] \<or> imageID = [] \<Longrightarrow>
   SplitImage (s @ CHR ''@'' # d) imageID = (fst (split_tag s), snd (split_tag s), d)"
  by (auto simp: SplitImage_def split_tag_def Let_def)

lemma SplitImage_plain:
  "CHR ''@'' \<notin> set s \<Longrightarrow> SplitImage s [] = (fst (split_tag s), snd (split_tag s), [])"
  by (auto simp: SplitImage_def split_tag_def Let_def)

subsection \<open>The behaviour of the two functions\<close>

definition join_image :: "string \<Rightarrow> string \<Rightarrow> string \<Rightarrow> string" where
  "join_image repo tag digest =
     repo @ (if tag = [] then [] else CHR '':'' # tag) @ (if digest = [] then [] else CHR ''@'' # digest)"

definition valid_ref :: "string \<Rightarrow> string \<Rightarrow> string \<Rightarrow> bool" where
  "valid_ref repo tag digest \<longleftrightarrow>
     CHR '':'' \<notin> set (last_segment repo) \<and> CHR ''/'' \<notin> set tag \<and> CHR ''@'' \<notin> set digest \<and>
     (digest = [] \<longrightarrow> CHR ''@'' \<notin> set repo \<and> CHR ''@'' \<notin> set tag)"

lemma split_tag_join:
  assumes "CHR '':'' \<notin> set (last_segment r)" "CHR ''/'' \<notin> set t"
  shows "split_tag (r @ (if t = [] then [] else CHR '':'' # t)) = (r, t)"
  using split_tag_tagged [OF assms] split_tag_untagged [OF assms(1)] by simp

text \<open>C26: an image reference put together from a repository, a tag and a digest is taken apart
  into the same three parts, whatever the resolved image id is when there is a digest.\<close>

theorem split_image_roundtrip:
  assumes "valid_ref repo tag digest" and "digest \<noteq> [] \<or> imageID = []"
  shows "SplitImage (join_image repo tag digest) imageID = (repo, tag, digest)"
proof (cases "digest = []")
  case True
  with assms have "CHR ''@'' \<notin> set (repo @ (if tag = [] then [] else CHR '':'' # tag))" "imageID = []"
    by (auto simp: valid_ref_def)
  with assms True show ?thesis
    by (simp add: join_image_def SplitImage_plain split_tag_join valid_ref_def del: set_append)
next
  case False
  with assms show ?thesis
    using SplitImage_digest [of digest imageID "repo @ (if tag = [] then [] else CHR '':'' # tag)"]
    by (simp add: join_image_def split_tag_join valid_ref_def)
qed

theorem split_image_roundtrip_witness:
  "SplitImage ''ghcr.io/norskhelsenett/scam:1.2@sha256:ab'' ''x@y'' =
     (''ghcr.io/norskhelsenett/scam'', ''1.2'', ''sha256:ab'')"
proof -
  have "valid_ref ''ghcr.io/norskhelsenett/scam'' ''1.2'' ''sha256:ab''"
    by code_simp
  then show ?thesis
    using split_image_roundtrip [of "''ghcr.io/norskhelsenett/scam''" "''1.2''" "''sha256:ab''" "''x@y''"]
    by (simp add: join_image_def)
qed







text \<open>C29: a reference without a digest takes the digest of the resolved image id, and takes its
  repository too unless its own repository already names a registry path (holds a slash and a dot)
  or the id names none; the tag is always the reference's own.\<close>

theorem split_image_fallback:
  assumes "CHR ''@'' \<notin> set spec" and "SplitImage spec [] = (repo, tag, digest)"
    and "trim_prefix imageID ''docker-pullable://'' = cand @ CHR ''@'' # d" and "CHR ''@'' \<notin> set d"
  shows "SplitImage spec imageID =
    (if CHR ''/'' \<in> set repo \<and> CHR ''.'' \<in> set repo \<or> cand = [] then repo else cand, tag, d)"
proof -
  have "imageID \<noteq> []" using assms(3) by (auto simp: trim_prefix_def split: if_splits)
  with assms show ?thesis
    by (auto simp: SplitImage_def Let_def contains_char)
qed

theorem split_image_fallback_witness:
  "SplitImage ''nginx'' ''docker-pullable://docker.io/library/nginx@sha256:def456'' =
     (''docker.io/library/nginx'', [], ''sha256:def456'')"
proof -
  have "SplitImage ''nginx'' [] = (''nginx'', [], [])" by code_simp
  moreover have "trim_prefix ''docker-pullable://docker.io/library/nginx@sha256:def456'' ''docker-pullable://'' =
      ''docker.io/library/nginx'' @ CHR ''@'' # ''sha256:def456''" by code_simp
  ultimately show ?thesis
    using split_image_fallback [of "''nginx''" "''nginx''" "[]" "[]"
      "''docker-pullable://docker.io/library/nginx@sha256:def456''" "''docker.io/library/nginx''" "''sha256:def456''"]
    by simp
qed

definition registry_host :: "string \<Rightarrow> bool" where
  "registry_host h \<longleftrightarrow> CHR ''.'' \<in> set h \<or> CHR '':'' \<in> set h \<or> h = ''localhost''"

lemma contains_any_host: "contains_any h ''.:'' \<or> h = ''localhost'' \<longleftrightarrow> registry_host h"
  unfolding contains_any_def registry_host_def list_ex_iff by auto

definition host_split :: "string \<Rightarrow> string \<Rightarrow> string \<Rightarrow> bool" where
  "host_split full host rest \<longleftrightarrow>
     full = host @ CHR ''/'' # rest \<and> CHR ''/'' \<notin> set host \<and> host \<noteq> [] \<and> registry_host host"

lemma SplitImageName_hosted:
  assumes "host_split full host rest"
  shows "SplitImageName full = (if host = ''docker.io'' then trim_prefix rest ''library/'' else rest, host)"
proof -
  have h: "full = host @ CHR ''/'' # rest" "CHR ''/'' \<notin> set host" "host \<noteq> []"
    and reg: "contains_any host ''.:'' \<or> host = ''localhost''"
    using assms by (auto simp: host_split_def simp flip: contains_any_host)
  have i: "index_byte full (CHR ''/'') = int (length host)" using h by simp
  have parts: "slice_to full (index_byte full (CHR ''/'')) = host"
      "slice_from full (index_byte full (CHR ''/'') + 1) = rest" "0 < index_byte full (CHR ''/'')"
    using h i by simp_all
  then show ?thesis unfolding SplitImageName_def Let_def parts using reg parts(3) by (simp only: simp_thms if_True)
qed

lemma SplitImageName_bare:
  assumes "\<nexists>host rest. host_split full host rest"
  shows "SplitImageName full = (full, [])"
proof (cases "0 < index_byte full (CHR ''/'')")
  case False
  then show ?thesis by (simp add: SplitImageName_def Let_def)
next
  case True
  then have "0 \<le> index_byte full (CHR ''/'')" by simp
  then obtain host rest where h: "full = host @ CHR ''/'' # rest" "CHR ''/'' \<notin> set host"
      "index_byte full (CHR ''/'') = int (length host)" by (rule index_byte_E)
  with True have "host \<noteq> []" by auto
  with h assms have "\<not> (contains_any host ''.:'' \<or> host = ''localhost'')"
    unfolding contains_any_host by (auto simp: host_split_def)
  moreover have "slice_to full (index_byte full (CHR ''/'')) = host" using h by simp
  ultimately show ?thesis by (simp add: SplitImageName_def Let_def)
qed

text \<open>C28: a name has a registry exactly if the text before its first slash is not empty and holds a dot
  or a colon or is localhost; the registry is then that text and the path what is behind the slash,
  without the synthetic \<open>library/\<close> of Docker Hub; any other name is its own path.\<close>

theorem split_image_name_exact:
  "SplitImageName full = (path, registry) \<longleftrightarrow>
     (if \<exists>host rest. full = host @ CHR ''/'' # rest \<and> CHR ''/'' \<notin> set host \<and> host \<noteq> [] \<and> registry_host host
      then \<exists>rest. full = registry @ CHR ''/'' # rest \<and> CHR ''/'' \<notin> set registry \<and> registry \<noteq> [] \<and>
        registry_host registry \<and>
        (if registry = ''docker.io'' \<and> prefix ''library/'' rest then rest = ''library/'' @ path else path = rest)
      else path = full \<and> registry = [])"
proof (cases "\<exists>host rest. host_split full host rest")
  case True
  then obtain host rest where h: "host_split full host rest" by blast
  have unique: "host_split full h' r' \<Longrightarrow> h' = host \<and> r' = rest" for h' r'
  proof -
    assume h': "host_split full h' r'"
    with h have "h' @ CHR ''/'' # r' = host @ CHR ''/'' # rest" "CHR ''/'' \<notin> set h'" "CHR ''/'' \<notin> set host"
      unfolding host_split_def by (metis, blast, blast)
    from split_char_unique [OF this] show ?thesis by blast
  qed
  have trim: "trim_prefix r ''library/'' = p \<longleftrightarrow>
      (if prefix ''library/'' r then r = ''library/'' @ p else p = r)" for r p
    unfolding trim_prefix_def by (cases "prefix ''library/'' r") (auto elim!: prefixE)
  have "SplitImageName full = (path, registry) \<longleftrightarrow> registry = host \<and>
      (if registry = ''docker.io'' \<and> prefix ''library/'' rest then rest = ''library/'' @ path else path = rest)"
    using trim [of rest path] by (auto simp: SplitImageName_hosted [OF h])
  moreover have "(\<exists>r. host_split full registry r \<and>
      (if registry = ''docker.io'' \<and> prefix ''library/'' r then r = ''library/'' @ path else path = r)) \<longleftrightarrow>
      registry = host \<and>
      (if registry = ''docker.io'' \<and> prefix ''library/'' rest then rest = ''library/'' @ path else path = rest)"
    (is "?L = ?R")
  proof
    assume ?L
    then obtain r where r: "host_split full registry r"
      "if registry = ''docker.io'' \<and> prefix ''library/'' r then r = ''library/'' @ path else path = r" by blast
    from unique [OF r(1)] have "registry = host" "r = rest" by auto
    with r(2) show ?R by blast
  next
    assume ?R
    with h show ?L by blast
  qed
  ultimately have "SplitImageName full = (path, registry) \<longleftrightarrow> (\<exists>r. host_split full registry r \<and>
      (if registry = ''docker.io'' \<and> prefix ''library/'' r then r = ''library/'' @ path else path = r))" by simp
  with True show ?thesis unfolding host_split_def by (simp add: conj_assoc)
next
  case False
  then show ?thesis using SplitImageName_bare [of full] unfolding host_split_def by auto
qed

text \<open>The cases of \<^verbatim>\<open>image_test.go\<close>, evaluated.\<close>

lemma image_test_cases:
  "SplitImage ''vaultwarden/server:1.35.4'' [] = (''vaultwarden/server'', ''1.35.4'', [])"
  "SplitImage ''nginx@sha256:abc123'' [] = (''nginx'', [], ''sha256:abc123'')"
  "SplitImage ''docker.io/traefik:v3.0'' [] = (''docker.io/traefik'', ''v3.0'', [])"
  "SplitImageName ''docker.io/library/postgres'' = (''postgres'', ''docker.io'')"
  "SplitImageName ''git.torden.tech/jonasbg/spam/trivy'' = (''jonasbg/spam/trivy'', ''git.torden.tech'')"
  "SplitImageName ''myimage'' = (''myimage'', [])"
  "SplitImageName ''localhost/myapp'' = (''myapp'', ''localhost'')"
  by code_simp+

end
