(* ===== verification/Pod.thy ===== *)
theory Pod
  imports Informer Image
begin

section \<open>Pods and containers: pod.go\<close>

text \<open>
  One record per container.  An update re-emits a container only if its image or its resolved image
  id changed, or the pod's phase did; the owner of a pod is resolved through its replica set.
  \<open>rsl\<close> is \<^verbatim>\<open>Refs.ReplicaSets\<close>: \<^const>\<open>None\<close> before main sets it, else the lister,
  whose \<^verbatim>\<open>Get\<close> returns \<^const>\<open>None\<close> for an error.
\<close>

type_synonym rs_lister = "(string \<Rightarrow> string \<Rightarrow> replica_set option) option"

subsection \<open>Owners\<close>

fun controller_of :: "owner_ref list \<Rightarrow> (string \<times> string) option" where
  "controller_of [] = None"
| "controller_of (o' # os) =
     (if or_Controller o' = Some True then Some (or_Kind o', or_Name o') else controller_of os)"

definition PodOwner :: "rs_lister \<Rightarrow> pod \<Rightarrow> string \<times> string" where
  "PodOwner rsl p =
     (let refs = m_OwnerReferences (p_Meta p);
          (kind, name) = (case controller_of refs of Some kn \<Rightarrow> kn | None \<Rightarrow> (''-'', ''-''));
          (kind, name) = (if kind = ''-'' \<and> refs \<noteq> [] then (or_Kind (hd refs), or_Name (hd refs)) else (kind, name))
      in if kind = ''ReplicaSet'' then
           (case rsl of None \<Rightarrow> (kind, name)
            | Some get \<Rightarrow> (case get (m_Namespace (p_Meta p)) name of None \<Rightarrow> (kind, name)
                | Some rs \<Rightarrow> (case controller_of (m_OwnerReferences (rs_Meta rs)) of
                     Some kn \<Rightarrow> kn | None \<Rightarrow> (kind, name))))
         else (kind, name))"

definition lessPod :: "rs_lister \<Rightarrow> pod \<Rightarrow> pod \<Rightarrow> bool" where
  "lessPod rsl a b =
     (if m_Namespace (p_Meta a) \<noteq> m_Namespace (p_Meta b)
      then m_Namespace (p_Meta a) < m_Namespace (p_Meta b)
      else (let (ak, an) = PodOwner rsl a; (bk, bn) = PodOwner rsl b
            in if ak \<noteq> bk then ak < bk
               else if an \<noteq> bn then an < bn
               else m_Name (p_Meta a) < m_Name (p_Meta b)))"

subsection \<open>Containers and their images\<close>

record containerRef =
  cr_kind :: string
  cr_name :: string
  cr_spec :: string
  cr_id :: string

fun statusImageID :: "container_status list \<Rightarrow> string \<Rightarrow> string" where
  "statusImageID [] name = []"
| "statusImageID (s # ss) name = (if cs_Name s = name then cs_ImageID s else statusImageID ss name)"

definition collectContainers :: "pod \<Rightarrow> containerRef list" where
  "collectContainers p =
     map (\<lambda>c. \<lparr>cr_kind = ''init'', cr_name = c_Name c, cr_spec = c_Image c,
        cr_id = statusImageID (pt_InitContainerStatuses (p_Status p)) (c_Name c)\<rparr>)
       (ps_InitContainers (p_Spec p)) @
     map (\<lambda>c. \<lparr>cr_kind = ''main'', cr_name = c_Name c, cr_spec = c_Image c,
        cr_id = statusImageID (pt_ContainerStatuses (p_Status p)) (c_Name c)\<rparr>)
       (ps_Containers (p_Spec p)) @
     map (\<lambda>c. \<lparr>cr_kind = ''ephemeral'', cr_name = e_Name c, cr_spec = e_Image c,
        cr_id = statusImageID (pt_EphemeralContainerStatuses (p_Status p)) (e_Name c)\<rparr>)
       (ps_EphemeralContainers (p_Spec p))"

fun imageIDs_match :: "container_status list \<Rightarrow> container_status list \<Rightarrow> bool" where
  "imageIDs_match [] b = True"
| "imageIDs_match (s # ss) b =
     (if cs_ImageID s \<noteq> statusImageID b (cs_Name s) then False else imageIDs_match ss b)"

definition sameImageIDs :: "container_status list \<Rightarrow> container_status list \<Rightarrow> bool" where
  "sameImageIDs a b = (if length a \<noteq> length b then False else imageIDs_match a b)"

definition SamePodImages :: "pod \<Rightarrow> pod \<Rightarrow> bool" where
  "SamePodImages a b =
     (let as = p_Spec a; bs = p_Spec b; at = p_Status a; bt = p_Status b in
      if pt_Phase at \<noteq> pt_Phase bt then False
      else if length (ps_InitContainers as) \<noteq> length (ps_InitContainers bs) \<or>
              length (ps_Containers as) \<noteq> length (ps_Containers bs) \<or>
              length (ps_EphemeralContainers as) \<noteq> length (ps_EphemeralContainers bs) then False
      else if list_ex (\<lambda>i. c_Name (ps_InitContainers as ! i) \<noteq> c_Name (ps_InitContainers bs ! i) \<or>
              c_Image (ps_InitContainers as ! i) \<noteq> c_Image (ps_InitContainers bs ! i))
              [0..<length (ps_InitContainers as)] then False
      else if list_ex (\<lambda>i. c_Name (ps_Containers as ! i) \<noteq> c_Name (ps_Containers bs ! i) \<or>
              c_Image (ps_Containers as ! i) \<noteq> c_Image (ps_Containers bs ! i))
              [0..<length (ps_Containers as)] then False
      else if list_ex (\<lambda>i. e_Name (ps_EphemeralContainers as ! i) \<noteq> e_Name (ps_EphemeralContainers bs ! i) \<or>
              e_Image (ps_EphemeralContainers as ! i) \<noteq> e_Image (ps_EphemeralContainers bs ! i))
              [0..<length (ps_EphemeralContainers as)] then False
      else sameImageIDs (pt_InitContainerStatuses at) (pt_InitContainerStatuses bt) \<and>
           sameImageIDs (pt_ContainerStatuses at) (pt_ContainerStatuses bt) \<and>
           sameImageIDs (pt_EphemeralContainerStatuses at) (pt_EphemeralContainerStatuses bt))"

subsection \<open>Emission\<close>

definition container_key :: "containerRef \<Rightarrow> string" where
  "container_key c = cr_kind c @ ''/'' @ cr_name c"

definition prev_map :: "containerRef list \<Rightarrow> (string \<rightharpoonup> containerRef)" where
  "prev_map old = fold (\<lambda>c m. m(container_key c \<mapsto> c)) old Map.empty"

definition unchanged :: "(string \<rightharpoonup> containerRef) option \<Rightarrow> containerRef \<Rightarrow> bool" where
  "unchanged prev c =
     (case prev of None \<Rightarrow> False
      | Some m \<Rightarrow> (case m (container_key c) of None \<Rightarrow> False
          | Some q \<Rightarrow> cr_spec q = cr_spec c \<and> cr_id q = cr_id c))"

definition container_attrs :: "rs_lister \<Rightarrow> pod \<Rightarrow> containerRef \<Rightarrow> attr list" where
  "container_attrs rsl p c =
     (let (ok, on) = PodOwner rsl p;
          (fullRepo, tag, digest) = SplitImage (cr_spec c) (cr_id c);
          (img, registry) = SplitImageName fullRepo
      in [(''namespace'', AStr (m_Namespace (p_Meta p))),
          (''pod_uid'', AStr (m_UID (p_Meta p))),
          (''pod_phase'', AStr (pt_Phase (p_Status p))),
          (''owner_kind'', AStr ok),
          (''owner'', AStr on),
          (''pod'', AStr (m_Name (p_Meta p))),
          (''pod_labels'', str_map (m_Labels (p_Meta p))),
          (''container_kind'', AStr (cr_kind c)),
          (''container'', AStr (cr_name c)),
          (''registry'', AStr registry),
          (''image'', AStr img),
          (''tag'', AStr tag),
          (''digest'', AStr digest),
          (''image_spec'', AStr (cr_spec c)),
          (''image_id'', AStr (cr_id c))])"

fun emit_containers ::
  "string \<Rightarrow> rs_lister \<Rightarrow> pod \<Rightarrow> (string \<rightharpoonup> containerRef) option \<Rightarrow> containerRef list \<Rightarrow>
   nat \<times> collector \<Rightarrow> nat \<times> collector" where
  "emit_containers event rsl p prev [] (emitted, s) = (emitted, s)"
| "emit_containers event rsl p prev (c # cs) (emitted, s) =
     (if unchanged prev c then emit_containers event rsl p prev cs (emitted, s)
      else emit_containers event rsl p prev cs
        (emitted + 1, log_event event ''Container'' (container_attrs rsl p c) s))"

definition EmitPod :: "rs_lister \<Rightarrow> string \<Rightarrow> pod \<Rightarrow> pod option \<Rightarrow> collector \<Rightarrow> nat \<times> collector" where
  "EmitPod rsl event p oldP s =
     (if (case oldP of Some q \<Rightarrow> SamePodImages q p | None \<Rightarrow> False) then (0, s)
      else
        (let cur = collectContainers p;
             phaseChanged = (case oldP of Some q \<Rightarrow> pt_Phase (p_Status q) \<noteq> pt_Phase (p_Status p) | None \<Rightarrow> False);
             prev = (case oldP of Some q \<Rightarrow> if \<not> phaseChanged then Some (prev_map (collectContainers q)) else None
                     | None \<Rightarrow> None)
         in emit_containers event rsl p prev cur (0, s)))"

fun emit_container_deletes ::
  "rs_lister \<Rightarrow> pod \<Rightarrow> containerRef list \<Rightarrow> collector \<Rightarrow> collector" where
  "emit_container_deletes rsl p [] s = s"
| "emit_container_deletes rsl p (c # cs) s =
     emit_container_deletes rsl p cs
       (log_event ''DELETE'' ''Container''
         [(''namespace'', AStr (m_Namespace (p_Meta p))),
          (''pod_uid'', AStr (m_UID (p_Meta p))),
          (''owner_kind'', AStr (fst (PodOwner rsl p))),
          (''owner'', AStr (snd (PodOwner rsl p))),
          (''pod'', AStr (m_Name (p_Meta p))),
          (''container_kind'', AStr (cr_kind c)),
          (''container'', AStr (cr_name c))] s)"

definition EmitPodDelete :: "rs_lister \<Rightarrow> pod \<Rightarrow> collector \<Rightarrow> collector" where
  "EmitPodDelete rsl p s = emit_container_deletes rsl p (collectContainers p) s"

subsection \<open>What the pod operations log\<close>

definition container_rec :: "string \<Rightarrow> rs_lister \<Rightarrow> pod \<Rightarrow> containerRef \<Rightarrow> out" where
  "container_rec event rsl p c = ORec event ''Container'' (container_attrs rsl p c)"

definition prev_of :: "pod \<Rightarrow> pod option \<Rightarrow> (string \<rightharpoonup> containerRef) option" where
  "prev_of p oldP = (case oldP of None \<Rightarrow> None
     | Some q \<Rightarrow> if pt_Phase (p_Status q) = pt_Phase (p_Status p)
         then Some (prev_map (collectContainers q)) else None)"

definition pod_outs :: "rs_lister \<Rightarrow> string \<Rightarrow> pod \<Rightarrow> pod option \<Rightarrow> out list" where
  "pod_outs rsl event p oldP =
     (if (case oldP of Some q \<Rightarrow> SamePodImages q p | None \<Rightarrow> False) then []
      else map (container_rec event rsl p)
        (filter (\<lambda>c. \<not> unchanged (prev_of p oldP) c) (collectContainers p)))"

definition pod_delete_outs :: "rs_lister \<Rightarrow> pod \<Rightarrow> out list" where
  "pod_delete_outs rsl p = map (\<lambda>c. ORec ''DELETE'' ''Container''
     [(''namespace'', AStr (m_Namespace (p_Meta p))), (''pod_uid'', AStr (m_UID (p_Meta p))),
      (''owner_kind'', AStr (fst (PodOwner rsl p))), (''owner'', AStr (snd (PodOwner rsl p))),
      (''pod'', AStr (m_Name (p_Meta p))), (''container_kind'', AStr (cr_kind c)),
      (''container'', AStr (cr_name c))]) (collectContainers p)"

lemma emit_containers_outs:
  "emit_containers event rsl p prev cs (n, s) =
     (let os = map (container_rec event rsl p) (filter (\<lambda>c. \<not> unchanged prev c) cs)
      in (n + length os, log_outs os s))"
  by (induction cs arbitrary: n s) (simp_all add: log_outs_Cons container_rec_def Let_def)

lemma EmitPod_outs:
  "EmitPod rsl event p oldP s = (length (pod_outs rsl event p oldP), log_outs (pod_outs rsl event p oldP) s)"
  by (cases oldP) (simp_all add: EmitPod_def pod_outs_def prev_of_def emit_containers_outs Let_def)

lemma EmitPodDelete_outs: "EmitPodDelete rsl p s = log_outs (pod_delete_outs rsl p) s"
proof -
  have "emit_container_deletes rsl p cs s = log_outs (map (\<lambda>c. ORec ''DELETE'' ''Container''
     [(''namespace'', AStr (m_Namespace (p_Meta p))), (''pod_uid'', AStr (m_UID (p_Meta p))),
      (''owner_kind'', AStr (fst (PodOwner rsl p))), (''owner'', AStr (snd (PodOwner rsl p))),
      (''pod'', AStr (m_Name (p_Meta p))), (''container_kind'', AStr (cr_kind c)),
      (''container'', AStr (cr_name c))]) cs) s" for cs
    by (induction cs arbitrary: s) (simp_all add: log_outs_Cons)
  then show ?thesis by (simp add: EmitPodDelete_def pod_delete_outs_def)
qed

lemma pod_outs_rec: "list_all is_rec (pod_outs rsl event p oldP)"
  by (auto simp: pod_outs_def list_all_iff container_rec_def)

lemma pod_delete_outs_rec: "list_all is_rec (pod_delete_outs rsl p)"
  by (auto simp: pod_delete_outs_def list_all_iff)

interpretation pod_initial: exact_emitter "\<lambda>p. EmitPod rsl ''INITIAL'' p None"
  "\<lambda>p. pod_outs rsl ''INITIAL'' p None" "\<lambda>p. length (pod_outs rsl ''INITIAL'' p None)"
  for rsl :: rs_lister
  by unfold_locales (simp_all add: EmitPod_outs pod_outs_rec)

interpretation pod_events: event_handler as_Pod
  "\<lambda>event p oldP s. snd (EmitPod rsl event p oldP s)" "EmitPodDelete rsl"
  "pod_outs rsl" "pod_delete_outs rsl"
  for rsl :: rs_lister
  by unfold_locales
    (simp_all add: EmitPod_outs EmitPodDelete_outs pod_outs_rec pod_delete_outs_rec as_Pod_def)

lemma pod_outs_initial: "pod_outs rsl event p None = map (container_rec event rsl p) (collectContainers p)"
  by (simp add: pod_outs_def prev_of_def unchanged_def)

interpretation pod_less: comparison "lessPod rsl" for rsl :: rs_lister
proof
  fix x y z
  show "\<not> lessPod rsl x x" by (simp add: lessPod_def split: prod.splits)
  show "lessPod rsl x y \<Longrightarrow> lessPod rsl y z \<Longrightarrow> lessPod rsl x z"
    by (auto simp: lessPod_def split: prod.splits if_splits)
  show "lessPod rsl x y \<Longrightarrow> lessPod rsl x z \<or> lessPod rsl z y"
    by (auto simp: lessPod_def split: prod.splits if_splits)
qed

subsection \<open>The update filter\<close>

text \<open>The keys of the containers of a pod are unique as soon as the names are, per kind.\<close>

lemma cr_kinds: "c \<in> set (collectContainers p) \<Longrightarrow> cr_kind c \<in> {''init'', ''main'', ''ephemeral''}"
  by (auto simp: collectContainers_def)

lemma container_key_inj:
  assumes "c \<in> set (collectContainers p)" "d \<in> set (collectContainers q)" "container_key c = container_key d"
  shows "cr_kind c = cr_kind d" and "cr_name c = cr_name d"
  using cr_kinds [OF assms(1)] cr_kinds [OF assms(2)] assms(3) by (auto simp: container_key_def)

lemma fold_upd_other:
  "k \<notin> container_key ` set cs \<Longrightarrow> fold (\<lambda>c m. m(container_key c \<mapsto> c)) cs m k = m k"
  by (induction cs arbitrary: m) auto

lemma fold_upd_same:
  "distinct (map container_key cs) \<Longrightarrow> c \<in> set cs \<Longrightarrow>
   fold (\<lambda>c m. m(container_key c \<mapsto> c)) cs m (container_key c) = Some c"
proof (induction cs arbitrary: m)
  case (Cons x xs)
  show ?case
  proof (cases "c = x")
    case True
    with Cons.prems show ?thesis by (simp add: fold_upd_other del: fun_upd_apply) simp
  next
    case False
    with Cons show ?thesis by (simp del: fun_upd_apply)
  qed
qed simp

lemmas prev_map_simps = prev_map_def fold_upd_other fold_upd_same

definition distinct_containers :: "pod \<Rightarrow> bool" where
  "distinct_containers p \<longleftrightarrow> distinct (map container_key (collectContainers p))"

lemma unchanged_iff:
  assumes "distinct_containers q" "c \<in> set (collectContainers p)"
  shows "unchanged (Some (prev_map (collectContainers q))) c \<longleftrightarrow> c \<in> set (collectContainers q)"
proof (cases "container_key c \<in> container_key ` set (collectContainers q)")
  case True
  then obtain d where d: "d \<in> set (collectContainers q)" "container_key c = container_key d" by auto
  with assms(1) have "prev_map (collectContainers q) (container_key c) = Some d"
    by (simp add: prev_map_simps distinct_containers_def)
  moreover have "c \<in> set (collectContainers q) \<longleftrightarrow> c = d"
    using assms(1) d by (metis (mono_tags) distinct_containers_def distinct_map inj_onD)
  ultimately show ?thesis
    using container_key_inj [OF assms(2) d] by (auto simp: unchanged_def)
next
  case False
  then have "prev_map (collectContainers q) (container_key c) = None" by (simp add: prev_map_simps)
  with False show ?thesis by (auto simp: unchanged_def)
qed

text \<open>
  The fast path \<open>SamePodImages\<close> compares the status lists by looking the old names up in the new
  list.  It tells the truth about the containers when the old statuses cover the containers of the
  specification, as the kubelet's do.
\<close>

definition covers :: "container_status list \<Rightarrow> string list \<Rightarrow> bool" where
  "covers ss names \<longleftrightarrow> set names \<subseteq> cs_Name ` set ss"

definition statuses_cover :: "pod \<Rightarrow> bool" where
  "statuses_cover p \<longleftrightarrow>
     covers (pt_InitContainerStatuses (p_Status p)) (map c_Name (ps_InitContainers (p_Spec p))) \<and>
     covers (pt_ContainerStatuses (p_Status p)) (map c_Name (ps_Containers (p_Spec p))) \<and>
     covers (pt_EphemeralContainerStatuses (p_Status p)) (map e_Name (ps_EphemeralContainers (p_Spec p)))"

lemma imageIDs_match_lookup:
  "imageIDs_match a b \<Longrightarrow> name \<in> cs_Name ` set a \<Longrightarrow> statusImageID a name = statusImageID b name"
  by (induction a b rule: imageIDs_match.induct) (auto split: if_splits)

lemma sameImageIDs_lookup:
  "sameImageIDs a b \<Longrightarrow> covers a names \<Longrightarrow> name \<in> set names \<Longrightarrow> statusImageID a name = statusImageID b name"
  by (auto simp: sameImageIDs_def covers_def split: if_splits intro!: imageIDs_match_lookup)

lemma same_by_index:
  assumes "length xs = length ys" "\<not> list_ex (\<lambda>i. f (xs ! i) \<noteq> f (ys ! i) \<or> g (xs ! i) \<noteq> g (ys ! i)) [0..<length xs]"
  shows "map f xs = map f ys" and "map g xs = map g ys"
  using assms by (auto simp: list_ex_iff intro: nth_equalityI)

lemma map_pair_eq:
  assumes "map f xs = map f ys" "map g xs = map g ys" "\<And>x. x \<in> set xs \<Longrightarrow> F (f x) (g x) = G (f x) (g x)"
  shows "map (\<lambda>x. F (f x) (g x)) xs = map (\<lambda>x. G (f x) (g x)) ys"
  using assms
proof (induction xs arbitrary: ys)
  case (Cons x xs)
  then obtain y ys' where ys: "ys = y # ys'" by (cases ys) auto
  have "map (\<lambda>x. F (f x) (g x)) xs = map (\<lambda>x. G (f x) (g x)) ys'"
    using Cons.prems ys by (intro Cons.IH) auto
  with Cons.prems(1,2) Cons.prems(3) [of x] ys show ?case by simp
qed simp

lemma collect_part:
  assumes "map f xs = map f ys" "map g xs = map g ys" "sameImageIDs a b" "covers a (map f xs)"
  shows "map (\<lambda>c. \<lparr>cr_kind = k, cr_name = f c, cr_spec = g c, cr_id = statusImageID a (f c)\<rparr>) xs =
    map (\<lambda>c. \<lparr>cr_kind = k, cr_name = f c, cr_spec = g c, cr_id = statusImageID b (f c)\<rparr>) ys"
proof -
  have "statusImageID a (f c) = statusImageID b (f c)" if "c \<in> set xs" for c
    using that by (intro sameImageIDs_lookup [OF assms(3,4)]) simp
  then show ?thesis
    using assms(1,2)
    by (intro map_pair_eq [of f xs ys g "\<lambda>n i. \<lparr>cr_kind = k, cr_name = n, cr_spec = i, cr_id = statusImageID a n\<rparr>"
        "\<lambda>n i. \<lparr>cr_kind = k, cr_name = n, cr_spec = i, cr_id = statusImageID b n\<rparr>"]) auto
qed

lemma SamePodImages_collect:
  assumes "SamePodImages q p" "statuses_cover q"
  shows "collectContainers q = collectContainers p"
proof -
  let ?qs = "p_Spec q" and ?ps = "p_Spec p" and ?qt = "p_Status q" and ?pt = "p_Status p"
  have init: "map c_Name (ps_InitContainers ?qs) = map c_Name (ps_InitContainers ?ps)"
      "map c_Image (ps_InitContainers ?qs) = map c_Image (ps_InitContainers ?ps)"
    using assms(1) same_by_index [of "ps_InitContainers ?qs" "ps_InitContainers ?ps" c_Name c_Image]
    by (auto simp: SamePodImages_def Let_def split: if_splits)
  have main: "map c_Name (ps_Containers ?qs) = map c_Name (ps_Containers ?ps)"
      "map c_Image (ps_Containers ?qs) = map c_Image (ps_Containers ?ps)"
    using assms(1) same_by_index [of "ps_Containers ?qs" "ps_Containers ?ps" c_Name c_Image]
    by (auto simp: SamePodImages_def Let_def split: if_splits)
  have eph: "map e_Name (ps_EphemeralContainers ?qs) = map e_Name (ps_EphemeralContainers ?ps)"
      "map e_Image (ps_EphemeralContainers ?qs) = map e_Image (ps_EphemeralContainers ?ps)"
    using assms(1) same_by_index [of "ps_EphemeralContainers ?qs" "ps_EphemeralContainers ?ps" e_Name e_Image]
    by (auto simp: SamePodImages_def Let_def split: if_splits)
  have ids: "sameImageIDs (pt_InitContainerStatuses ?qt) (pt_InitContainerStatuses ?pt)"
      "sameImageIDs (pt_ContainerStatuses ?qt) (pt_ContainerStatuses ?pt)"
      "sameImageIDs (pt_EphemeralContainerStatuses ?qt) (pt_EphemeralContainerStatuses ?pt)"
    using assms(1) by (auto simp: SamePodImages_def Let_def split: if_splits)
  show ?thesis
    using collect_part [OF init ids(1)] collect_part [OF main ids(2)] collect_part [OF eph ids(3)] assms(2)
    by (simp add: collectContainers_def statuses_cover_def)
qed

lemma pod_outs_update:
  assumes "statuses_cover q" "distinct_containers q"
  shows "pod_outs rsl event p (Some q) = map (container_rec event rsl p)
    (filter (\<lambda>c. pt_Phase (p_Status q) \<noteq> pt_Phase (p_Status p) \<or> c \<notin> set (collectContainers q))
      (collectContainers p))"
proof (cases "SamePodImages q p")
  case True
  then have "collectContainers q = collectContainers p" "pt_Phase (p_Status q) = pt_Phase (p_Status p)"
    using assms(1) by (auto simp: SamePodImages_collect) (simp add: SamePodImages_def Let_def split: if_splits)
  with True show ?thesis by (simp add: pod_outs_def)
next
  case False
  have "filter (\<lambda>c. \<not> unchanged (prev_of p (Some q)) c) (collectContainers p) =
    filter (\<lambda>c. pt_Phase (p_Status q) \<noteq> pt_Phase (p_Status p) \<or> c \<notin> set (collectContainers q)) (collectContainers p)"
    using unchanged_iff [OF assms(2)]
    by (intro filter_cong refl) (auto simp: prev_of_def unchanged_def split: if_splits)
  with False show ?thesis by (simp add: pod_outs_def)
qed

subsection \<open>Properties of the pod component\<close>

text \<open>C1: provided the old pod's statuses name its containers (\<open>statuses_cover\<close>) and its containers
  have distinct names, an update emits exactly the containers that are new or whose image or resolved
  image id changed, and all of them if the phase changed, in the order of the pod, and returns their
  number: the fast path and the per-container filter together lose nothing and repeat nothing.  The
  clause on the phase is the code's; the documentation of the records knows only the other two.\<close>

theorem emit_pod_update_exact:
  assumes "statuses_cover q" and "distinct_containers q"
  shows "EmitPod rsl event p (Some q) s =
    (let changed = filter (\<lambda>c. pt_Phase (p_Status q) \<noteq> pt_Phase (p_Status p) \<or> c \<notin> set (collectContainers q))
        (collectContainers p)
     in (length changed, log_outs (map (container_rec event rsl p) changed) s))"
  by (simp add: EmitPod_outs pod_outs_update [OF assms] Let_def)

definition pod_example :: "string \<Rightarrow> string \<Rightarrow> pod" where
  "pod_example phase img =
     \<lparr>p_Meta = \<lparr>m_Name = ''web-1'', m_Namespace = ''shop'', m_UID = ''u1'', m_Labels = None,
        m_Annotations = Some ''x'', m_ManagedFields = None, m_Finalizers = None, m_OwnerReferences =
          [\<lparr>or_Kind = ''ReplicaSet'', or_Name = ''web-8b8'', or_Controller = Some True\<rparr>]\<rparr>,
      p_Spec = \<lparr>ps_InitContainers = [], ps_Containers =
          [\<lparr>c_Name = ''app'', c_Image = img, c_Command = None, c_Args = None, c_Env = Some ''FOO'', c_EnvFrom = None,
            c_VolumeMounts = None, c_VolumeDevices = None, c_Resources = None, c_LivenessProbe = None,
            c_ReadinessProbe = None, c_StartupProbe = None, c_Lifecycle = None, c_SecurityContext = None,
            c_Ports = None\<rparr>],
        ps_EphemeralContainers = [], ps_Volumes = Some ''data'', ps_NodeSelector = None, ps_Tolerations = None,
        ps_Affinity = None, ps_TopologySpreadConstraints = None, ps_SchedulingGates = None,
        ps_ReadinessGates = None, ps_ImagePullSecrets = None, ps_HostAliases = None\<rparr>,
      p_Status = \<lparr>pt_Phase = phase, pt_Conditions = None, pt_PodIPs = None, pt_ContainerStatuses =
          [\<lparr>cs_Name = ''app'', cs_ImageID = ''r.io/a@sha256:1'', cs_LastTerminationState = None\<rparr>],
        pt_InitContainerStatuses = [], pt_EphemeralContainerStatuses = []\<rparr>\<rparr>"

theorem emit_pod_update_exact_witness:
  "fst (EmitPod None ''UPDATE'' (pod_example ''Running'' ''a:2'') (Some (pod_example ''Running'' ''a:1'')) init_collector) = 1"
proof -
  let ?q = "pod_example ''Running'' ''a:1''" and ?p = "pod_example ''Running'' ''a:2''"
  have "statuses_cover ?q" "distinct_containers ?q"
    by (simp_all add: statuses_cover_def covers_def distinct_containers_def collectContainers_def pod_example_def)
  from emit_pod_update_exact [OF this, of None "''UPDATE''" ?p init_collector] show ?thesis
    by (simp add: Let_def collectContainers_def pod_example_def)
qed








text \<open>
  Why \<open>statuses_cover\<close> is needed: when the old statuses do not name the container, the fast
  path compares nothing about it and hides the change of its image id.
\<close>

lemma fast_path_hides_change:
  defines "q \<equiv> (pod_example ''Running'' ''a:1'')\<lparr>p_Status := (p_Status (pod_example ''Running'' ''a:1''))
      \<lparr>pt_ContainerStatuses := [\<lparr>cs_Name = ''old'', cs_ImageID = [], cs_LastTerminationState = None\<rparr>]\<rparr>\<rparr>"
    and "p \<equiv> pod_example ''Running'' ''a:1''"
  shows "cr_id (hd (collectContainers q)) = []" "cr_id (hd (collectContainers p)) = ''r.io/a@sha256:1''"
    "EmitPod rsl ''UPDATE'' p (Some q) s = (0, s)"
  by (simp_all add: q_def p_def collectContainers_def EmitPod_def SamePodImages_def sameImageIDs_def
      pod_example_def Let_def)

end
