(* ===== verification/Endpoint_Slice.thy ===== *)
theory Endpoint_Slice
  imports Informer
begin

section \<open>Endpoint slices: endpointslice.go\<close>

definition opt_str :: "string option \<Rightarrow> string" where
  "opt_str x = (case x of None \<Rightarrow> [] | Some v \<Rightarrow> v)"

text \<open>\<^verbatim>\<open>Addresses\<close> has no \<^verbatim>\<open>omitempty\<close>; a nil slice there does not occur, the API requires one address.\<close>

definition epEndpoint_json :: "endpoint \<Rightarrow> aval" where
  "epEndpoint_json ep = AObj
     ([(''addresses'', str_list (ep_Addresses ep))] @
      (case ep_Ready ep of None \<Rightarrow> [] | Some r \<Rightarrow> [(''ready'', ABool r)]) @
      omit_str ''hostname'' (opt_str (ep_Hostname ep)) @
      omit_str ''node_name'' (opt_str (ep_NodeName ep)) @
      omit_str ''zone'' (opt_str (ep_Zone ep)))"

definition epPort_json :: "endpoint_port \<Rightarrow> aval" where
  "epPort_json p = AObj
     (omit_str ''name'' (opt_str (eport_Name p)) @
      omit_i32 ''port'' (case eport_Port p of None \<Rightarrow> 0 | Some n \<Rightarrow> n) @
      omit_str ''protocol'' (opt_str (eport_Protocol p)))"

definition label_value :: "labels \<Rightarrow> string \<Rightarrow> string" where
  "label_value ls k = (case ls of None \<Rightarrow> [] | Some kvs \<Rightarrow> (case map_of kvs k of None \<Rightarrow> [] | Some v \<Rightarrow> v))"

definition endpoint_slice_attrs :: "endpoint_slice \<Rightarrow> attr list" where
  "endpoint_slice_attrs es =
     [(''uid'', AStr (m_UID (es_Meta es))),
      (''namespace'', AStr (m_Namespace (es_Meta es))),
      (''name'', AStr (m_Name (es_Meta es))),
      (''labels'', str_map (m_Labels (es_Meta es))),
      (''service_name'', AStr (label_value (m_Labels (es_Meta es)) ''kubernetes.io/service-name'')),
      (''address_type'', AStr (es_AddressType es)),
      (''endpoints'', AList (map epEndpoint_json (es_Endpoints es))),
      (''ports'', AList (map epPort_json (es_Ports es)))]"

definition EmitEndpointSlice :: "string \<Rightarrow> endpoint_slice \<Rightarrow> collector \<Rightarrow> collector" where
  "EmitEndpointSlice event es c = log_event event ''EndpointSlice'' (endpoint_slice_attrs es) c"

definition EmitEndpointSliceDelete :: "endpoint_slice \<Rightarrow> collector \<Rightarrow> collector" where
  "EmitEndpointSliceDelete es c = log_event ''DELETE'' ''EndpointSlice''
     [(''uid'', AStr (m_UID (es_Meta es))), (''namespace'', AStr (m_Namespace (es_Meta es))),
      (''name'', AStr (m_Name (es_Meta es)))] c"

definition endpoint_slice_outs :: "string \<Rightarrow> endpoint_slice \<Rightarrow> out list" where
  "endpoint_slice_outs event es = [ORec event ''EndpointSlice'' (endpoint_slice_attrs es)]"

definition endpoint_slice_delete_outs :: "endpoint_slice \<Rightarrow> out list" where
  "endpoint_slice_delete_outs es = [ORec ''DELETE'' ''EndpointSlice''
     [(''uid'', AStr (m_UID (es_Meta es))), (''namespace'', AStr (m_Namespace (es_Meta es))),
      (''name'', AStr (m_Name (es_Meta es)))]]"

lemma endpoint_slice_ops_outs:
  "EmitEndpointSlice event es c = log_outs (endpoint_slice_outs event es) c"
  "EmitEndpointSliceDelete es c = log_outs (endpoint_slice_delete_outs es) c"
  by (simp_all add: EmitEndpointSlice_def endpoint_slice_outs_def EmitEndpointSliceDelete_def
      endpoint_slice_delete_outs_def log_outs_Cons)

interpretation endpoint_slice_initial: exact_emitter
  "\<lambda>es c. (1, EmitEndpointSlice ''INITIAL'' es c)" "endpoint_slice_outs ''INITIAL''" "\<lambda>_. 1"
  by unfold_locales (simp_all add: endpoint_slice_ops_outs endpoint_slice_outs_def)

interpretation endpoint_slice_events: event_handler as_EndpointSlice
  "\<lambda>event es _ c. EmitEndpointSlice event es c" EmitEndpointSliceDelete
  "\<lambda>event es _. endpoint_slice_outs event es" endpoint_slice_delete_outs
  by unfold_locales
    (simp_all add: endpoint_slice_ops_outs endpoint_slice_outs_def endpoint_slice_delete_outs_def as_EndpointSlice_def)

interpretation endpoint_slice_less: comparison
  "\<lambda>a b. nsNameLess (m_Namespace (es_Meta a)) (m_Name (es_Meta a)) (m_Namespace (es_Meta b)) (m_Name (es_Meta b))"
  by (rule comparison_nsName)

end
