(* ===== verification/Service.thy ===== *)
theory Service
  imports Informer
begin

section \<open>Services: service.go\<close>

text \<open>Every service is emitted, with its ports and the addresses of its load balancer.\<close>

definition svcPort_json :: "service_port \<Rightarrow> aval" where
  "svcPort_json p = AObj
     (omit_str ''name'' (sp_Name p) @
      [(''port'', AInt (sint (sp_Port p)))] @
      omit_str ''target_port'' (sp_TargetPort p) @
      omit_str ''protocol'' (sp_Protocol p) @
      omit_i32 ''node_port'' (sp_NodePort p) @
      omit_str ''app_protocol'' (case sp_AppProtocol p of None \<Rightarrow> [] | Some a \<Rightarrow> a))"

fun lbAddresses :: "lb_ingress list \<Rightarrow> string list \<times> string list" where
  "lbAddresses [] = ([], [])"
| "lbAddresses (lb # lbs) =
     (case lbAddresses lbs of (ips, hosts) \<Rightarrow>
        (if lb_IP lb \<noteq> [] then lb_IP lb # ips else ips,
         if lb_Hostname lb \<noteq> [] then lb_Hostname lb # hosts else hosts))"

definition service_attrs :: "service \<Rightarrow> attr list" where
  "service_attrs s =
     (let ports = map svcPort_json (s_Ports s);
          (lbIPs, lbHosts) = lbAddresses (s_LoadBalancer s)
      in [(''uid'', AStr (m_UID (s_Meta s))),
          (''namespace'', AStr (m_Namespace (s_Meta s))),
          (''name'', AStr (m_Name (s_Meta s))),
          (''labels'', str_map (m_Labels (s_Meta s))),
          (''service_type'', AStr (s_Type s)),
          (''cluster_ips'', opt_str_list (s_ClusterIPs s)),
          (''external_ips'', opt_str_list (s_ExternalIPs s)),
          (''external_name'', AStr (s_ExternalName s)),
          (''selector'', str_map (s_Selector s)),
          (''ports'', AList ports),
          (''lb_ips'', nil_str_list lbIPs),
          (''lb_hostnames'', nil_str_list lbHosts)])"

definition EmitService :: "string \<Rightarrow> service \<Rightarrow> collector \<Rightarrow> collector" where
  "EmitService event s c = log_event event ''Service'' (service_attrs s) c"

definition EmitServiceDelete :: "service \<Rightarrow> collector \<Rightarrow> collector" where
  "EmitServiceDelete s c = log_event ''DELETE'' ''Service''
     [(''uid'', AStr (m_UID (s_Meta s))), (''namespace'', AStr (m_Namespace (s_Meta s))),
      (''name'', AStr (m_Name (s_Meta s)))] c"

definition service_outs :: "string \<Rightarrow> service \<Rightarrow> out list" where
  "service_outs event s = [ORec event ''Service'' (service_attrs s)]"

definition service_delete_outs :: "service \<Rightarrow> out list" where
  "service_delete_outs s = [ORec ''DELETE'' ''Service''
     [(''uid'', AStr (m_UID (s_Meta s))), (''namespace'', AStr (m_Namespace (s_Meta s))),
      (''name'', AStr (m_Name (s_Meta s)))]]"

lemma EmitService_outs: "EmitService event s c = log_outs (service_outs event s) c"
  by (simp add: EmitService_def service_outs_def log_outs_Cons)

lemma EmitServiceDelete_outs: "EmitServiceDelete s c = log_outs (service_delete_outs s) c"
  by (simp add: EmitServiceDelete_def service_delete_outs_def log_outs_Cons)

lemma lbAddresses_eq:
  "lbAddresses lbs = (filter (\<lambda>a. a \<noteq> []) (map lb_IP lbs), filter (\<lambda>a. a \<noteq> []) (map lb_Hostname lbs))"
  by (induction lbs) auto

interpretation service_initial: exact_emitter
  "\<lambda>s c. (1, EmitService ''INITIAL'' s c)" "service_outs ''INITIAL''" "\<lambda>_. 1"
  by unfold_locales (simp_all add: EmitService_outs service_outs_def)

interpretation service_events: event_handler as_Service
  "\<lambda>event s _ c. EmitService event s c" EmitServiceDelete "\<lambda>event s _. service_outs event s" service_delete_outs
  by unfold_locales
    (simp_all add: EmitService_outs EmitServiceDelete_outs service_outs_def service_delete_outs_def as_Service_def)

interpretation service_less: comparison
  "\<lambda>a b. nsNameLess (m_Namespace (s_Meta a)) (m_Name (s_Meta a)) (m_Namespace (s_Meta b)) (m_Name (s_Meta b))"
  by (rule comparison_nsName)

end
