(* ===== verification/Ingress.thy ===== *)
theory Ingress
  imports Service
begin

section \<open>Ingresses and ingress classes: ingress.go\<close>

definition ingPath_json :: "ing_http_path \<Rightarrow> aval" where
  "ingPath_json p =
     (let (kind, nm, port) =
        (case bk_Service (hp_Backend p) of
           Some svc \<Rightarrow> (''Service'', ib_Name svc,
             (if ib_PortName svc \<noteq> [] then ib_PortName svc
              else if ib_PortNumber svc \<noteq> 0 then itoa (sint (ib_PortNumber svc)) else []))
         | None \<Rightarrow> (case bk_Resource (hp_Backend p) of
             Some r \<Rightarrow> (ir_Kind r, ir_Name r, [])
           | None \<Rightarrow> ([], [], [])))
      in AObj
        (omit_str ''path'' (hp_Path p) @
         omit_str ''path_type'' (case hp_PathType p of None \<Rightarrow> [] | Some t \<Rightarrow> t) @
         omit_str ''backend_kind'' kind @
         omit_str ''backend_name'' nm @
         omit_str ''backend_port'' port))"

definition ingRule_json :: "ing_spec_rule \<Rightarrow> aval" where
  "ingRule_json r =
     (let paths = (case ru_HTTP r of None \<Rightarrow> [] | Some ps \<Rightarrow> map ingPath_json ps)
      in AObj (omit_str ''host'' (ru_Host r) @ (if paths = [] then [] else [(''paths'', AList paths)])))"

definition ingTLS_json :: "ing_spec_tls \<Rightarrow> aval" where
  "ingTLS_json t = AObj
     ((if it_Hosts t = [] then [] else [(''hosts'', str_list (it_Hosts t))]) @
      omit_str ''secret'' (it_SecretName t))"

fun IngressLbAddresses :: "lb_ingress list \<Rightarrow> string list \<times> string list" where
  "IngressLbAddresses [] = ([], [])"
| "IngressLbAddresses (lb # lbs) =
     (case IngressLbAddresses lbs of (ips, hosts) \<Rightarrow>
        (if lb_IP lb \<noteq> [] then lb_IP lb # ips else ips,
         if lb_Hostname lb \<noteq> [] then lb_Hostname lb # hosts else hosts))"

definition ingress_attrs :: "ingress \<Rightarrow> attr list" where
  "ingress_attrs i =
     (let cls = (case i_IngressClassName i of None \<Rightarrow> [] | Some k \<Rightarrow> k);
          (lbIPs, lbHosts) = IngressLbAddresses (i_LoadBalancer i)
      in [(''uid'', AStr (m_UID (i_Meta i))),
          (''namespace'', AStr (m_Namespace (i_Meta i))),
          (''name'', AStr (m_Name (i_Meta i))),
          (''labels'', str_map (m_Labels (i_Meta i))),
          (''ingress_class'', AStr cls),
          (''rules'', AList (map ingRule_json (i_Rules i))),
          (''tls'', AList (map ingTLS_json (i_TLS i))),
          (''lb_ips'', nil_str_list lbIPs),
          (''lb_hostnames'', nil_str_list lbHosts)])"

definition EmitIngress :: "string \<Rightarrow> ingress \<Rightarrow> collector \<Rightarrow> collector" where
  "EmitIngress event i c = log_event event ''Ingress'' (ingress_attrs i) c"

definition EmitIngressDelete :: "ingress \<Rightarrow> collector \<Rightarrow> collector" where
  "EmitIngressDelete i c = log_event ''DELETE'' ''Ingress''
     [(''uid'', AStr (m_UID (i_Meta i))), (''namespace'', AStr (m_Namespace (i_Meta i))),
      (''name'', AStr (m_Name (i_Meta i)))] c"

definition EmitIngressClass :: "string \<Rightarrow> ingress_class \<Rightarrow> collector \<Rightarrow> collector" where
  "EmitIngressClass event ic c = log_event event ''IngressClass''
     [(''uid'', AStr (m_UID (ic_Meta ic))), (''name'', AStr (m_Name (ic_Meta ic))),
      (''labels'', str_map (m_Labels (ic_Meta ic))), (''controller'', AStr (ic_Controller ic))] c"

definition EmitIngressClassDelete :: "ingress_class \<Rightarrow> collector \<Rightarrow> collector" where
  "EmitIngressClassDelete ic c = log_event ''DELETE'' ''IngressClass''
     [(''uid'', AStr (m_UID (ic_Meta ic))), (''name'', AStr (m_Name (ic_Meta ic)))] c"

subsection \<open>What they log\<close>

definition ingress_outs :: "string \<Rightarrow> ingress \<Rightarrow> out list" where
  "ingress_outs event i = [ORec event ''Ingress'' (ingress_attrs i)]"

definition ingress_delete_outs :: "ingress \<Rightarrow> out list" where
  "ingress_delete_outs i = [ORec ''DELETE'' ''Ingress''
     [(''uid'', AStr (m_UID (i_Meta i))), (''namespace'', AStr (m_Namespace (i_Meta i))),
      (''name'', AStr (m_Name (i_Meta i)))]]"

definition ingress_class_outs :: "string \<Rightarrow> ingress_class \<Rightarrow> out list" where
  "ingress_class_outs event ic = [ORec event ''IngressClass''
     [(''uid'', AStr (m_UID (ic_Meta ic))), (''name'', AStr (m_Name (ic_Meta ic))),
      (''labels'', str_map (m_Labels (ic_Meta ic))), (''controller'', AStr (ic_Controller ic))]]"

definition ingress_class_delete_outs :: "ingress_class \<Rightarrow> out list" where
  "ingress_class_delete_outs ic = [ORec ''DELETE'' ''IngressClass''
     [(''uid'', AStr (m_UID (ic_Meta ic))), (''name'', AStr (m_Name (ic_Meta ic)))]]"

lemma ingress_ops_outs:
  "EmitIngress event i c = log_outs (ingress_outs event i) c"
  "EmitIngressDelete i c = log_outs (ingress_delete_outs i) c"
  "EmitIngressClass event ic c = log_outs (ingress_class_outs event ic) c"
  "EmitIngressClassDelete ic c = log_outs (ingress_class_delete_outs ic) c"
  by (simp_all add: EmitIngress_def ingress_outs_def EmitIngressDelete_def ingress_delete_outs_def
      EmitIngressClass_def ingress_class_outs_def EmitIngressClassDelete_def ingress_class_delete_outs_def
      log_outs_Cons)

lemma IngressLbAddresses_eq: "IngressLbAddresses lbs = lbAddresses lbs"
  by (induction lbs) auto

interpretation ingress_initial: exact_emitter
  "\<lambda>i c. (1, EmitIngress ''INITIAL'' i c)" "ingress_outs ''INITIAL''" "\<lambda>_. 1"
  by unfold_locales (simp_all add: ingress_ops_outs ingress_outs_def)

interpretation ingress_class_initial: exact_emitter
  "\<lambda>ic c. (1, EmitIngressClass ''INITIAL'' ic c)" "ingress_class_outs ''INITIAL''" "\<lambda>_. 1"
  by unfold_locales (simp_all add: ingress_ops_outs ingress_class_outs_def)

interpretation ingress_class_events: event_handler as_IngressClass
  "\<lambda>event ic _ c. EmitIngressClass event ic c" EmitIngressClassDelete
  "\<lambda>event ic _. ingress_class_outs event ic" ingress_class_delete_outs
  by unfold_locales
    (simp_all add: ingress_ops_outs ingress_class_outs_def ingress_class_delete_outs_def as_IngressClass_def)

interpretation ingress_less: comparison
  "\<lambda>a b. nsNameLess (m_Namespace (i_Meta a)) (m_Name (i_Meta a)) (m_Namespace (i_Meta b)) (m_Name (i_Meta b))"
  by (rule comparison_nsName)

interpretation ingress_class_less: comparison "\<lambda>a b. m_Name (ic_Meta a) < m_Name (ic_Meta b)"
  by (rule comparison_key)

end
