(* ===== verification/Unstructured.thy ===== *)
theory Unstructured
  imports Informer
begin

section \<open>Custom resources: the accessors of helpers.go\<close>

text \<open>
  Gateway API and Traefik objects are \<^verbatim>\<open>unstructured.Unstructured\<close> values, read through the
  accessors of the Kubernetes machinery, which is outside the repository.  Those accessors are the
  fields of a \<open>kapi\<close>, an argument of every definition that uses one; each returns what the Go
  function returns (a value, whether it was found, whether there was an error).
\<close>

record kapi =
  NestedString :: "uobject \<Rightarrow> string list \<Rightarrow> string \<times> bool \<times> bool"
  NestedSlice :: "uobject \<Rightarrow> string list \<Rightarrow> uval list \<times> bool \<times> bool"
  NestedStringSlice :: "uobject \<Rightarrow> string list \<Rightarrow> string list \<times> bool \<times> bool"
  NestedInt64 :: "uobject \<Rightarrow> string list \<Rightarrow> i64 \<times> bool \<times> bool"
  GetNamespace :: "uobject \<Rightarrow> string"
  GetName :: "uobject \<Rightarrow> string"
  GetUID :: "uobject \<Rightarrow> string"
  GetLabels :: "uobject \<Rightarrow> labels"
  ClearAnnotations :: "uobject \<Rightarrow> uobject"
  ClearManagedFields :: "uobject \<Rightarrow> uobject"
  ClearFinalizers :: "uobject \<Rightarrow> uobject"
  RemoveNestedField :: "uobject \<Rightarrow> string list \<Rightarrow> uobject"
  ParseGroupVersion :: "string \<Rightarrow> string \<times> string"
  GroupVersionString :: "string \<Rightarrow> string \<Rightarrow> string"

text \<open>
  \<open>Clear...\<close> stands for the setters at \<^verbatim>\<open>nil\<close>.  \<open>GroupVersionString\<close> is
  \<^verbatim>\<open>GroupVersion.String\<close> on group and version.
\<close>

subsection \<open>The program's accessors\<close>

definition UStr :: "kapi \<Rightarrow> uobject \<Rightarrow> string list \<Rightarrow> string" where
  "UStr K obj path = (case NestedString K obj path of (s, _, _) \<Rightarrow> s)"

definition USlice :: "kapi \<Rightarrow> uobject \<Rightarrow> string list \<Rightarrow> uval list" where
  "USlice K obj path = (case NestedSlice K obj path of (s, _, _) \<Rightarrow> s)"

definition UStringSlice :: "kapi \<Rightarrow> uobject \<Rightarrow> string list \<Rightarrow> string list" where
  "UStringSlice K obj path = (case NestedStringSlice K obj path of (s, _, _) \<Rightarrow> s)"

definition UInt32 :: "kapi \<Rightarrow> uobject \<Rightarrow> string list \<Rightarrow> i32" where
  "UInt32 K obj path = (case NestedInt64 K obj path of (n, _, _) \<Rightarrow> ucast n)"

definition derefStr :: "string option \<Rightarrow> string" where
  "derefStr p = (case p of None \<Rightarrow> [] | Some s \<Rightarrow> s)"

definition UnstructuredList :: "anyobj list \<Rightarrow> uobject list" where
  "UnstructuredList objs = List.map_filter as_Unstructured objs"

definition LessUnstructured :: "kapi \<Rightarrow> uobject \<Rightarrow> uobject \<Rightarrow> bool" where
  "LessUnstructured K a b = nsNameLess (GetNamespace K a) (GetName K a) (GetNamespace K b) (GetName K b)"

text \<open>The type assertion \<^verbatim>\<open>x.(map[string]any)\<close>.\<close>

definition as_map :: "uval \<Rightarrow> uobject option" where
  "as_map v = (case v of UMap m \<Rightarrow> Some m | _ \<Rightarrow> None)"

subsection \<open>What the documentation of the accessors promises\<close>

text \<open>
  The accessor laws the program relies on: a read that finds nothing (or finds a value of another
  type) returns the zero value; removing a field, or clearing a piece of the metadata, leaves reads
  at unrelated paths and the other metadata alone; the group version parsed from
  \<^verbatim>\<open>group/version\<close> prints as the same string.
\<close>

definition unrelated :: "string list \<Rightarrow> string list \<Rightarrow> bool" where
  "unrelated p q \<longleftrightarrow> \<not> prefix p q \<and> \<not> prefix q p"

definition reads_agree :: "kapi \<Rightarrow> uobject \<Rightarrow> uobject \<Rightarrow> string list \<Rightarrow> bool" where
  "reads_agree K a b q \<longleftrightarrow> NestedString K a q = NestedString K b q \<and> NestedSlice K a q = NestedSlice K b q \<and>
     NestedStringSlice K a q = NestedStringSlice K b q \<and> NestedInt64 K a q = NestedInt64 K b q"

definition identity_agrees :: "kapi \<Rightarrow> uobject \<Rightarrow> uobject \<Rightarrow> bool" where
  "identity_agrees K a b \<longleftrightarrow> GetNamespace K a = GetNamespace K b \<and> GetName K a = GetName K b \<and>
     GetUID K a = GetUID K b \<and> GetLabels K a = GetLabels K b"

locale unstructured_api =
  fixes K :: kapi
  assumes remove_reads: "unrelated p q \<Longrightarrow> reads_agree K (RemoveNestedField K obj p) obj q"
    and remove_identity: "hd p \<noteq> ''metadata'' \<Longrightarrow> p \<noteq> [] \<Longrightarrow> identity_agrees K (RemoveNestedField K obj p) obj"
    and clear_annotations: "hd q \<noteq> ''metadata'' \<Longrightarrow> q \<noteq> [] \<Longrightarrow> reads_agree K (ClearAnnotations K obj) obj q"
    and clear_annotations_identity: "identity_agrees K (ClearAnnotations K obj) obj"
    and clear_managed: "hd q \<noteq> ''metadata'' \<Longrightarrow> q \<noteq> [] \<Longrightarrow> reads_agree K (ClearManagedFields K obj) obj q"
    and clear_managed_identity: "identity_agrees K (ClearManagedFields K obj) obj"
    and clear_finalizers: "hd q \<noteq> ''metadata'' \<Longrightarrow> q \<noteq> [] \<Longrightarrow> reads_agree K (ClearFinalizers K obj) obj q"
    and clear_finalizers_identity: "identity_agrees K (ClearFinalizers K obj) obj"
    and parse_print: "CHR ''/'' \<notin> set g \<Longrightarrow> CHR ''/'' \<notin> set v \<Longrightarrow> g \<noteq> [] \<Longrightarrow> v \<noteq> [] \<Longrightarrow>
      ParseGroupVersion K (g @ ''/'' @ v) = (g, v) \<and> GroupVersionString K g v = g @ ''/'' @ v"
begin

lemma identity_trans: "identity_agrees K a b \<Longrightarrow> identity_agrees K b d \<Longrightarrow> identity_agrees K a d"
  by (simp add: identity_agrees_def)

lemma reads_trans: "reads_agree K a b q \<Longrightarrow> reads_agree K b d q \<Longrightarrow> reads_agree K a d q"
  by (simp add: reads_agree_def)

lemma reads_agreeD:
  assumes "reads_agree K a b q"
  shows "UStr K a q = UStr K b q" "USlice K a q = USlice K b q"
    "UStringSlice K a q = UStringSlice K b q" "UInt32 K a q = UInt32 K b q"
  using assms by (simp_all add: reads_agree_def UStr_def USlice_def UStringSlice_def UInt32_def)

end

lemma LessUnstructured_comparison: "comparison (LessUnstructured K)"
  using comparison_nsName [of "GetNamespace K" "GetName K"] by (simp add: LessUnstructured_def [abs_def])

interpretation unstructured_less: comparison "LessUnstructured K" for K :: kapi
  by (rule LessUnstructured_comparison)

subsection \<open>The documented accessors, computed\<close>

text \<open>
  The accessors written out after their documentation: nested lookup through maps, and removal and
  the metadata setters as updates of one nested map.  The laws above hold of them, so the theorems
  that assume the laws are about something.
\<close>

fun nested :: "uobject \<Rightarrow> string list \<Rightarrow> uval option" where
  "nested m [] = Some (UMap m)"
| "nested m [k] = map_of m k"
| "nested m (k # k' # ks) = (case map_of m k of Some (UMap m') \<Rightarrow> nested m' (k' # ks) | _ \<Rightarrow> None)"

definition as_string :: "uval \<Rightarrow> string option" where
  "as_string v = (case v of UString s \<Rightarrow> Some s | _ \<Rightarrow> None)"

definition found_or :: "'a \<Rightarrow> (uval \<Rightarrow> 'a option) \<Rightarrow> uval option \<Rightarrow> 'a \<times> bool \<times> bool" where
  "found_or z f v = (case v of None \<Rightarrow> (z, False, False)
     | Some u \<Rightarrow> (case f u of None \<Rightarrow> (z, False, True) | Some x \<Rightarrow> (x, True, False)))"

definition as_slice :: "uval \<Rightarrow> uval list option" where
  "as_slice v = (case v of USeq xs \<Rightarrow> Some xs | _ \<Rightarrow> None)"

definition as_strings :: "uval \<Rightarrow> string list option" where
  "as_strings v = (case v of USeq xs \<Rightarrow>
     if list_all (\<lambda>x. as_string x \<noteq> None) xs then Some (List.map_filter as_string xs) else None | _ \<Rightarrow> None)"

definition as_int :: "uval \<Rightarrow> i64 option" where
  "as_int v = (case v of UInt n \<Rightarrow> Some n | _ \<Rightarrow> None)"

fun remove_nested :: "uobject \<Rightarrow> string list \<Rightarrow> uobject" where
  "remove_nested m [] = m"
| "remove_nested m [k] = filter (\<lambda>(k', v). k' \<noteq> k) m"
| "remove_nested m (k # k' # ks) = map (\<lambda>(j, v). (j, if j = k then
     (case v of UMap m' \<Rightarrow> UMap (remove_nested m' (k' # ks)) | _ \<Rightarrow> v) else v)) m"

definition string_map :: "uval option \<Rightarrow> labels" where
  "string_map v = (case v of Some (UMap m) \<Rightarrow>
      if list_all (\<lambda>(k, x). as_string x \<noteq> None) m
      then Some (List.map_filter (\<lambda>(k, x). map_option (Pair k) (as_string x)) m) else None
    | _ \<Rightarrow> None)"

definition ref_kapi :: kapi where
  "ref_kapi = \<lparr>
     NestedString = (\<lambda>m p. found_or [] as_string (nested m p)),
     NestedSlice = (\<lambda>m p. found_or [] as_slice (nested m p)),
     NestedStringSlice = (\<lambda>m p. found_or [] as_strings (nested m p)),
     NestedInt64 = (\<lambda>m p. found_or 0 as_int (nested m p)),
     GetNamespace = (\<lambda>m. fst (found_or [] as_string (nested m [''metadata'', ''namespace'']))),
     GetName = (\<lambda>m. fst (found_or [] as_string (nested m [''metadata'', ''name'']))),
     GetUID = (\<lambda>m. fst (found_or [] as_string (nested m [''metadata'', ''uid'']))),
     GetLabels = (\<lambda>m. string_map (nested m [''metadata'', ''labels''])),
     ClearAnnotations = (\<lambda>m. remove_nested m [''metadata'', ''annotations'']),
     ClearManagedFields = (\<lambda>m. remove_nested m [''metadata'', ''managedFields'']),
     ClearFinalizers = (\<lambda>m. remove_nested m [''metadata'', ''finalizers'']),
     RemoveNestedField = remove_nested,
     ParseGroupVersion = (\<lambda>s. (takeWhile (\<lambda>c. c \<noteq> CHR ''/'') s, tl (dropWhile (\<lambda>c. c \<noteq> CHR ''/'') s))),
     GroupVersionString = (\<lambda>g v. if g = [] then v else g @ ''/'' @ v)\<rparr>"

lemma map_of_filter_key: "map_of (filter (\<lambda>(k', v). k' \<noteq> k) m) j = (if j = k then None else map_of m j)"
  by (induction m) auto

lemma map_of_map_key:
  "map_of (map (\<lambda>(j, v). (j, if j = k then f v else v)) m) i =
     (if i = k then map_option f (map_of m i) else map_of m i)"
  by (induction m) auto

lemma nested_remove: "unrelated p q \<Longrightarrow> nested (remove_nested m p) q = nested m q"
proof (induction m p arbitrary: q rule: remove_nested.induct)
  case (1 m)
  then show ?case by (simp add: unrelated_def)
next
  case (2 m k)
  then obtain j js where "q = j # js" "j \<noteq> k" by (cases q) (auto simp: unrelated_def)
  then show ?case by (cases js) (simp_all add: map_of_filter_key)
next
  case (3 m k k' ks)
  then obtain j js where q: "q = j # js" by (cases q) (auto simp: unrelated_def)
  show ?case
  proof (cases "j = k")
    case True
    with "3.prems" q have u: "unrelated (k' # ks) js" by (auto simp: unrelated_def)
    then obtain i iss where "js = i # iss" by (cases js) (auto simp: unrelated_def)
    with "3.IH" u True q show ?thesis
      by (auto simp: map_of_map_key split: option.splits uval.splits dest: map_of_SomeD)
  next
    case False
    with q show ?thesis by (cases js) (simp_all add: map_of_map_key)
  qed
qed

declare nested.simps [simp del] remove_nested.simps [simp del]

lemma unrelated_hd: "p \<noteq> [] \<Longrightarrow> q \<noteq> [] \<Longrightarrow> hd p \<noteq> hd q \<Longrightarrow> unrelated p q"
  by (cases p; cases q) (auto simp: unrelated_def)

lemma ref_kapi_reads: "unrelated p q \<Longrightarrow> reads_agree ref_kapi (remove_nested m p) m q"
  by (simp add: reads_agree_def ref_kapi_def nested_remove)

lemma ref_kapi_identity:
  assumes "\<And>f. f \<in> {''namespace'', ''name'', ''uid'', ''labels''} \<Longrightarrow> unrelated p [''metadata'', f]"
  shows "identity_agrees ref_kapi (remove_nested m p) m"
  using assms by (simp add: identity_agrees_def ref_kapi_def nested_remove)

lemma ref_kapi_ops [simp]:
  "RemoveNestedField ref_kapi = remove_nested"
  "ClearAnnotations ref_kapi m = remove_nested m [''metadata'', ''annotations'']"
  "ClearManagedFields ref_kapi m = remove_nested m [''metadata'', ''managedFields'']"
  "ClearFinalizers ref_kapi m = remove_nested m [''metadata'', ''finalizers'']"
  by (simp_all add: ref_kapi_def)

lemma takeWhile_slash: "CHR ''/'' \<notin> set g \<Longrightarrow> takeWhile (\<lambda>c. c \<noteq> CHR ''/'') (g @ CHR ''/'' # v) = g"
  by (induction g) auto

lemma dropWhile_slash: "CHR ''/'' \<notin> set g \<Longrightarrow> dropWhile (\<lambda>c. c \<noteq> CHR ''/'') (g @ CHR ''/'' # v) = CHR ''/'' # v"
  by (induction g) auto

interpretation ref_api: unstructured_api ref_kapi
proof
  fix p q :: "string list" and obj :: uobject and g v :: string
  show "unrelated p q \<Longrightarrow> reads_agree ref_kapi (RemoveNestedField ref_kapi obj p) obj q"
    by (simp add: ref_kapi_reads)
  show "hd p \<noteq> ''metadata'' \<Longrightarrow> p \<noteq> [] \<Longrightarrow> identity_agrees ref_kapi (RemoveNestedField ref_kapi obj p) obj"
    by (auto intro!: ref_kapi_identity unrelated_hd)
  show "hd q \<noteq> ''metadata'' \<Longrightarrow> q \<noteq> [] \<Longrightarrow> reads_agree ref_kapi (ClearAnnotations ref_kapi obj) obj q"
    and "hd q \<noteq> ''metadata'' \<Longrightarrow> q \<noteq> [] \<Longrightarrow> reads_agree ref_kapi (ClearManagedFields ref_kapi obj) obj q"
    and "hd q \<noteq> ''metadata'' \<Longrightarrow> q \<noteq> [] \<Longrightarrow> reads_agree ref_kapi (ClearFinalizers ref_kapi obj) obj q"
    by (auto intro!: ref_kapi_reads unrelated_hd)
  show "identity_agrees ref_kapi (ClearAnnotations ref_kapi obj) obj"
    and "identity_agrees ref_kapi (ClearManagedFields ref_kapi obj) obj"
    and "identity_agrees ref_kapi (ClearFinalizers ref_kapi obj) obj"
    by (auto intro!: ref_kapi_identity simp: unrelated_def)
  show "CHR ''/'' \<notin> set g \<Longrightarrow> CHR ''/'' \<notin> set v \<Longrightarrow> g \<noteq> [] \<Longrightarrow> v \<noteq> [] \<Longrightarrow>
      ParseGroupVersion ref_kapi (g @ ''/'' @ v) = (g, v) \<and> GroupVersionString ref_kapi g v = g @ ''/'' @ v"
    by (simp add: ref_kapi_def takeWhile_slash dropWhile_slash)
qed

end
