(* ===== verification/Discovery.thy ===== *)
theory Discovery
  imports Unstructured "HOL-Library.AList"
begin

section \<open>Choosing one version per resource\<close>

text \<open>
  \<open>DiscoverGatewayAPI\<close> and \<open>DiscoverTraefik\<close> keep, for each resource name, the best
  group version seen so far and its rank, and replace it only for a strictly higher rank.  The state
  of both loops is the pair of maps \<^verbatim>\<open>best\<close>, \<^verbatim>\<open>rank\<close>; one round of the inner
  loop offers a version for a resource.
\<close>

text \<open>
  What \<^verbatim>\<open>ServerResourcesForGroupVersion\<close> answers: an error (not found or another one), a
  nil list, or the names of the resources.
\<close>

datatype disc_result = DError bool | DNil | DResources "string list"

type_synonym best_rank = "(string \<times> gvr) list \<times> (string \<times> nat) list"

definition rank_of :: "(string \<times> nat) list \<Rightarrow> string \<Rightarrow> nat" where
  "rank_of rank r = (case map_of rank r of None \<Rightarrow> 0 | Some k \<Rightarrow> k)"

definition offer :: "string \<Rightarrow> nat \<Rightarrow> gvr \<Rightarrow> best_rank \<Rightarrow> best_rank" where
  "offer r k g br = (case br of (best, rank) \<Rightarrow>
     if k > rank_of rank r then (AList.update r g best, AList.update r k rank) else (best, rank))"

definition offers :: "(string \<times> nat \<times> gvr) list \<Rightarrow> best_rank \<Rightarrow> best_rank" where
  "offers os br = fold (\<lambda>(r, k, g). offer r k g) os br"

definition sort_gvrs :: "best_rank \<Rightarrow> gvr list" where
  "sort_gvrs br = sort_slice (\<lambda>a b. g_Resource a < g_Resource b) (map snd (fst br))"

interpretation gvr_less: comparison "\<lambda>a b. g_Resource a < g_Resource b"
  by (rule comparison_key)

lemma offers_simps [simp]:
  "offers [] br = br"
  "offers ((r, k, g) # os) br = offers os (offer r k g br)"
  "offers (os @ os') br = offers os' (offers os br)"
  by (simp_all add: offers_def)

text \<open>The winner for a resource is the first offer of maximal rank.\<close>

definition winner :: "(string \<times> nat \<times> gvr) list \<Rightarrow> string \<Rightarrow> nat \<Rightarrow> gvr \<Rightarrow> bool" where
  "winner os r k g \<longleftrightarrow> (\<exists>pre post. os = pre @ (r, k, g) # post \<and>
     (\<forall>k' g'. (r, k', g') \<in> set pre \<longrightarrow> k' < k) \<and> (\<forall>k' g'. (r, k', g') \<in> set post \<longrightarrow> k' \<le> k))"

lemma winner_snocI:
  assumes "winner os r k g" "r' = r \<Longrightarrow> k' \<le> k"
  shows "winner (os @ [(r', k', g')]) r k g"
proof -
  from assms(1) obtain pre post where "os = pre @ (r, k, g) # post"
      "\<forall>k' g'. (r, k', g') \<in> set pre \<longrightarrow> k' < k" "\<forall>k' g'. (r, k', g') \<in> set post \<longrightarrow> k' \<le> k"
    unfolding winner_def by blast
  then show ?thesis
    unfolding winner_def using assms(2)
    by (intro exI [of _ pre] exI [of _ "post @ [(r', k', g')]"]) auto
qed

lemma winner_last: "(\<And>k' g'. (r, k', g') \<in> set os \<Longrightarrow> k' < k) \<Longrightarrow> winner (os @ [(r, k, g)]) r k g"
  unfolding winner_def by (intro exI [of _ os] exI [of _ "[]"]) auto

lemma winner_max: "winner os r k g \<Longrightarrow> (r, k', g') \<in> set os \<Longrightarrow> k' \<le> k"
  by (auto simp: winner_def) (metis less_imp_le)+

lemma winner_mem: "winner os r k g \<Longrightarrow> (r, k, g) \<in> set os"
  by (auto simp: winner_def)

lemma winner_unique: "winner os r k g \<Longrightarrow> winner os r k' g' \<Longrightarrow> g = g'"
proof -
  assume w: "winner os r k g" and w': "winner os r k' g'"
  then have "k = k'" by (meson antisym winner_max winner_mem)
  from w w' show "g = g'"
    unfolding winner_def \<open>k = k'\<close>
    by (auto simp: append_eq_append_conv2 Cons_eq_append_conv append_eq_Cons_conv) (metis less_irrefl)+
qed

definition tracks_at :: "(string \<times> nat \<times> gvr) list \<Rightarrow> best_rank \<Rightarrow> string \<Rightarrow> bool" where
  "tracks_at os br r \<longleftrightarrow> (case map_of (snd br) r of
     None \<Rightarrow> map_of (fst br) r = None \<and> (\<forall>k g. (r, k, g) \<notin> set os)
   | Some k \<Rightarrow> (\<exists>g. map_of (fst br) r = Some g \<and> winner os r k g))"

definition tracks :: "(string \<times> nat \<times> gvr) list \<Rightarrow> best_rank \<Rightarrow> bool" where
  "tracks os br \<longleftrightarrow> distinct (map fst (fst br)) \<and> (\<forall>r. tracks_at os br r)"

lemma tracks_at_update:
  "tracks_at os (AList.update r g best, AList.update r k rank) r' \<longleftrightarrow>
     (if r' = r then winner os r k g else tracks_at os (best, rank) r')"
  by (auto simp: tracks_at_def update_conv' split: option.splits)

lemma tracks_offer:
  assumes "tracks os br" "0 < k"
  shows "tracks (os @ [(r, k, g)]) (offer r k g br)"
proof -
  obtain best rank where br: "br = (best, rank)" by (cases br)
  have dist: "distinct (map fst best)" and inv: "tracks_at os (best, rank) r'" for r'
    using assms(1) br by (auto simp: tracks_def)
  have other: "tracks_at (os @ [(r, k, g)]) (best, rank) r'" if "r' \<noteq> r" for r'
    using inv [of r'] that by (auto simp: tracks_at_def split: option.splits intro: winner_snocI)
  show ?thesis
  proof (cases "k > rank_of rank r")
    case True
    have "winner (os @ [(r, k, g)]) r k g"
    proof (rule winner_last)
      fix k' g' assume mem: "(r, k', g') \<in> set os"
      with inv [of r] obtain k0 g0 where "map_of rank r = Some k0" "winner os r k0 g0"
        by (auto simp: tracks_at_def split: option.splits)
      with True winner_max [OF _ mem] show "k' < k" by (force simp: rank_of_def)
    qed
    with True other dist br show ?thesis
      by (auto simp: tracks_def offer_def tracks_at_update distinct_update)
  next
    case False
    with assms(2) obtain k0 where k0: "map_of rank r = Some k0" "k \<le> k0"
      by (auto simp: rank_of_def split: option.splits)
    with inv [of r] have "tracks_at (os @ [(r, k, g)]) (best, rank) r"
      by (auto simp: tracks_at_def intro: winner_snocI)
    with other have "tracks_at (os @ [(r, k, g)]) (best, rank) r'" for r' by (cases "r' = r") auto
    with False dist br show ?thesis by (simp add: tracks_def offer_def)
  qed
qed

lemma tracks_offers:
  assumes "\<And>r k g. (r, k, g) \<in> set os \<Longrightarrow> 0 < k"
  shows "tracks os (offers os ([], []))"
  using assms
proof (induction os rule: rev_induct)
  case Nil
  then show ?case by (simp add: tracks_def tracks_at_def)
next
  case (snoc x os)
  obtain r k g where "x = (r, k, g)" by (cases x)
  with snoc show ?case by (auto intro!: tracks_offer)
qed

text \<open>What the two functions return, in terms of the offers.\<close>

lemma sort_gvrs_spec:
  assumes "\<And>r k g. (r, k, g) \<in> set os \<Longrightarrow> 0 < k" "\<And>r k g. (r, k, g) \<in> set os \<Longrightarrow> g_Resource g = r"
  defines "out \<equiv> sort_gvrs (offers os ([], []))"
  shows "g \<in> set out \<longleftrightarrow> (\<exists>k. winner os (g_Resource g) k g)"
    and "sorted (map g_Resource out)" and "distinct (map g_Resource out)"
proof -
  obtain best rank where br: "offers os ([], []) = (best, rank)" by (cases "offers os ([], [])")
  have tr: "tracks os (best, rank)" using tracks_offers [of os] assms(1) br by metis
  then have dist: "distinct (map fst best)" by (simp add: tracks_def)
  have win: "\<exists>k. winner os r k g" if "map_of best r = Some g" for r g
  proof -
    have "tracks_at os (best, rank) r" using tr by (simp add: tracks_def)
    with that show ?thesis by (auto simp: tracks_at_def split: option.splits)
  qed
  have res: "(r, g) \<in> set best \<Longrightarrow> g_Resource g = r" for r g
    using win [of r g] dist assms(2) by (fastforce dest: winner_mem)
  have set: "set out = snd ` set best" by (simp add: out_def sort_gvrs_def br)
  show "g \<in> set out \<longleftrightarrow> (\<exists>k. winner os (g_Resource g) k g)"
  proof
    assume "g \<in> set out"
    with set res have "(g_Resource g, g) \<in> set best" by auto
    with dist win show "\<exists>k. winner os (g_Resource g) k g" by simp
  next
    assume "\<exists>k. winner os (g_Resource g) k g"
    then obtain k where w: "winner os (g_Resource g) k g" ..
    then have mem: "(g_Resource g, k, g) \<in> set os" by (rule winner_mem)
    with tr obtain k' g' where g': "map_of best (g_Resource g) = Some g'" "winner os (g_Resource g) k' g'"
      by (auto simp: tracks_def tracks_at_def split: option.splits dest!: spec [of _ "g_Resource g"])
    have "g' = g" using g'(2) w by (rule winner_unique)
    with g' set show "g \<in> set out" by (force dest: map_of_SomeD)
  qed
  have "map g_Resource (map snd best) = map fst best" using res by auto
  with dist have "distinct (map g_Resource (map snd best))" by (simp only:)
  moreover have "mset (map g_Resource out) = mset (map g_Resource (map snd best))"
    unfolding mset_map by (simp add: out_def sort_gvrs_def br)
  ultimately show "distinct (map g_Resource out)" by (metis mset_eq_imp_distinct_iff)
  show "sorted (map g_Resource out)"
    using gvr_less.sorted_sort_slice [of "map snd best"]
    by (simp add: out_def sort_gvrs_def br sorted_map not_less)
qed

text \<open>When equal ranks mean the same group version, the winner is just the maximum.\<close>

lemma winner_iff_max:
  assumes "\<And>g g'. (r, k, g) \<in> set os \<Longrightarrow> (r, k, g') \<in> set os \<Longrightarrow> g = g'"
  shows "winner os r k g \<longleftrightarrow> (r, k, g) \<in> set os \<and> (\<forall>k' g'. (r, k', g') \<in> set os \<longrightarrow> k' \<le> k)"
proof
  assume "winner os r k g"
  then show "(r, k, g) \<in> set os \<and> (\<forall>k' g'. (r, k', g') \<in> set os \<longrightarrow> k' \<le> k)"
    by (auto dest: winner_mem winner_max)
next
  assume max: "(r, k, g) \<in> set os \<and> (\<forall>k' g'. (r, k', g') \<in> set os \<longrightarrow> k' \<le> k)"
  then have "\<exists>x\<in>set os. fst x = r \<and> fst (snd x) = k" by force
  from split_list_first_prop [OF this] obtain pre x post where os: "os = pre @ x # post"
      "fst x = r \<and> fst (snd x) = k" "\<forall>y\<in>set pre. \<not> (fst y = r \<and> fst (snd y) = k)" by blast
  obtain g' where x: "x = (r, k, g')" using os(2) by (cases x) auto
  with os(1) max assms have "g' = g" by auto
  moreover have "\<forall>k' g'. (r, k', g') \<in> set pre \<longrightarrow> k' < k"
    using os max by (fastforce simp: le_less)
  ultimately show "winner os r k g"
    unfolding winner_def using os(1) x max by (intro exI [of _ pre] exI [of _ post]) auto
qed

lemma sorted_keys_unique:
  fixes f :: "'a \<Rightarrow> 'k :: linorder"
  assumes "sorted (map f xs)" "distinct (map f xs)" "sorted (map f ys)" "distinct (map f ys)" "set xs = set ys"
  shows "xs = ys"
proof (rule map_inj_on [of f])
  show "map f xs = map f ys"
    by (rule sorted_distinct_set_unique) (use assms in simp_all)
  show "inj_on f (set xs \<union> set ys)" using assms(2,5) by (simp add: distinct_map)
qed

text \<open>When ranks never increase along the offers, the winner is the first offer for the resource.\<close>

lemma winner_first:
  assumes "sorted_wrt (\<lambda>x y. fst (snd y) \<le> fst (snd x)) os"
  shows "winner os r k g \<longleftrightarrow> find (\<lambda>x. fst x = r) os = Some (r, k, g)"
proof
  assume "winner os r k g"
  then obtain pre post where os: "os = pre @ (r, k, g) # post" and lt: "\<forall>k' g'. (r, k', g') \<in> set pre \<longrightarrow> k' < k"
    by (auto simp: winner_def)
  have "fst x \<noteq> r" if "x \<in> set pre" for x
  proof
    assume "fst x = r"
    with that have x: "(r, fst (snd x), snd (snd x)) \<in> set pre" by (metis prod.collapse)
    with assms os have "k \<le> fst (snd x)" by (force simp: sorted_wrt_append)
    with lt [rule_format, OF x] show False by simp
  qed
  then have "find (\<lambda>x. fst x = r) pre = None" by (force simp: find_None_iff)
  then show "find (\<lambda>x. fst x = r) os = Some (r, k, g)" by (simp add: os find_append)
next
  assume "find (\<lambda>x. fst x = r) os = Some (r, k, g)"
  then obtain i where i: "i < length os" "os ! i = (r, k, g)" "\<forall>j<i. fst (os ! j) \<noteq> r"
    by (auto simp: find_Some_iff)
  have os: "os = take i os @ (r, k, g) # drop (Suc i) os" using i by (metis id_take_nth_drop)
  have "\<forall>k' g'. (r, k', g') \<notin> set (take i os)" using i(1,3) by (force simp: in_set_conv_nth)
  moreover have "\<forall>k' g'. (r, k', g') \<in> set (drop (Suc i) os) \<longrightarrow> k' \<le> k"
    using assms by (subst (asm) os) (force simp: sorted_wrt_append)
  ultimately show "winner os r k g"
    unfolding winner_def by (intro exI [of _ "take i os"] exI [of _ "drop (Suc i) os"]) (use os in auto)
qed

end
