(* ===== verification/Gateway.thy ===== *)
theory Gateway
  imports Discovery
begin

section \<open>Gateway API: gatewayapi.go\<close>

subsection \<open>Discovery\<close>

definition gwAPIGroup :: string where
  "gwAPIGroup = ''gateway.networking.k8s.io''"

definition gwAPIVersionRank :: "(string \<times> nat) list" where
  "gwAPIVersionRank = [(''v1'', 3), (''v1beta1'', 2), (''v1alpha2'', 1)]"

definition gwAPIResources :: "string list" where
  "gwAPIResources = [''gateways'', ''gatewayclasses'', ''httproutes'', ''grpcroutes'', ''tlsroutes'', ''tcproutes'']"

fun in_list :: "string \<Rightarrow> string list \<Rightarrow> bool" where
  "in_list name [] = False"
| "in_list name (r # rs) = (if r = name then True else in_list name rs)"

definition wantResource :: "string \<Rightarrow> bool" where
  "wantResource name = in_list name gwAPIResources"

fun gw_scan :: "string \<times> string \<Rightarrow> string list \<Rightarrow> best_rank \<Rightarrow> best_rank" where
  "gw_scan parsed [] br = br"
| "gw_scan parsed (r # rs) br =
     (if contains r ''/'' then gw_scan parsed rs br
      else if \<not> wantResource r then gw_scan parsed rs br
      else gw_scan parsed rs (offer r (rank_of gwAPIVersionRank (snd parsed))
        \<lparr>g_Group = fst parsed, g_Version = snd parsed, g_Resource = r\<rparr> br))"

text \<open>
  The loop over the version map runs in an order Go leaves open: \<open>order\<close> is that order, an
  argument.  The debug line for an unexpected error is below the handler's level and never written.
\<close>

fun gw_versions :: "kapi \<Rightarrow> (string \<Rightarrow> disc_result) \<Rightarrow> string list \<Rightarrow> best_rank \<Rightarrow> best_rank" where
  "gw_versions K disc [] br = br"
| "gw_versions K disc (v # vs) br =
     (let gv = gwAPIGroup @ ''/'' @ v
      in (case disc gv of
            DError notFound \<Rightarrow> gw_versions K disc vs br
          | DNil \<Rightarrow> gw_versions K disc vs br
          | DResources rs \<Rightarrow> gw_versions K disc vs (gw_scan (ParseGroupVersion K gv) rs br)))"

definition DiscoverGatewayAPI :: "kapi \<Rightarrow> (string \<Rightarrow> disc_result) \<Rightarrow> string list \<Rightarrow> gvr list" where
  "DiscoverGatewayAPI K disc order = sort_gvrs (gw_versions K disc order ([], []))"

definition GvrStrings :: "kapi \<Rightarrow> gvr list \<Rightarrow> string list" where
  "GvrStrings K gvrs = map (\<lambda>g. GroupVersionString K (g_Group g) (g_Version g) @ ''/'' @ g_Resource g) gvrs"

subsection \<open>Records\<close>

text \<open>The rows of the structs, with \<^verbatim>\<open>omitempty\<close> on every field.\<close>

definition map_objs :: "(uobject \<Rightarrow> 'a) \<Rightarrow> uval list \<Rightarrow> 'a list" where
  "map_objs f xs = List.map_filter (\<lambda>x. map_option f (as_map x)) xs"

definition nil_list :: "aval list \<Rightarrow> aval" where
  "nil_list xs = (if xs = [] then ANull else AList xs)"

definition ustr_slice_json :: "kapi \<Rightarrow> uobject \<Rightarrow> string list \<Rightarrow> aval" where
  "ustr_slice_json K obj path = (case NestedStringSlice K obj path of (_, found, _) \<Rightarrow>
     if found then str_list (UStringSlice K obj path) else ANull)"

definition parseListeners :: "kapi \<Rightarrow> uobject \<Rightarrow> aval list" where
  "parseListeners K u = map_objs (\<lambda>m. AObj
     (omit_str ''name'' (UStr K m [''name'']) @
      omit_i32 ''port'' (UInt32 K m [''port'']) @
      omit_str ''protocol'' (UStr K m [''protocol'']) @
      omit_str ''hostname'' (UStr K m [''hostname'']))) (USlice K u [''spec'', ''listeners''])"

definition parseAddresses :: "kapi \<Rightarrow> uobject \<Rightarrow> string list \<Rightarrow> aval list" where
  "parseAddresses K obj path = map_objs (\<lambda>m. AObj
     (omit_str ''type'' (UStr K m [''type'']) @
      omit_str ''value'' (UStr K m [''value'']))) (USlice K obj path)"

definition parseParentRefs :: "kapi \<Rightarrow> uobject \<Rightarrow> aval list" where
  "parseParentRefs K u = map_objs (\<lambda>m. AObj
     (omit_str ''group'' (UStr K m [''group'']) @
      omit_str ''kind'' (UStr K m [''kind'']) @
      omit_str ''namespace'' (UStr K m [''namespace'']) @
      omit_str ''name'' (UStr K m [''name'']) @
      omit_str ''section_name'' (UStr K m [''sectionName'']) @
      omit_i32 ''port'' (UInt32 K m [''port'']))) (USlice K u [''spec'', ''parentRefs''])"

definition backendRef_json :: "kapi \<Rightarrow> uobject \<Rightarrow> aval" where
  "backendRef_json K m = AObj
     (omit_str ''group'' (UStr K m [''group'']) @
      omit_str ''kind'' (UStr K m [''kind'']) @
      omit_str ''namespace'' (UStr K m [''namespace'']) @
      omit_str ''name'' (UStr K m [''name'']) @
      omit_i32 ''port'' (UInt32 K m [''port'']) @
      omit_i32 ''weight'' (UInt32 K m [''weight'']))"

definition collectRouteBackends :: "kapi \<Rightarrow> uobject \<Rightarrow> aval list" where
  "collectRouteBackends K u = concat
     (map_objs (\<lambda>rm. map_objs (backendRef_json K) (USlice K rm [''backendRefs'']))
       (USlice K u [''spec'', ''rules'']))"

definition emitGateway :: "kapi \<Rightarrow> string \<Rightarrow> gvr \<Rightarrow> uobject \<Rightarrow> collector \<Rightarrow> collector" where
  "emitGateway K event g u c = log_event event ''Gateway''
     [(''api_version'', AStr (GroupVersionString K (g_Group g) (g_Version g))),
      (''uid'', AStr (GetUID K u)),
      (''namespace'', AStr (GetNamespace K u)),
      (''name'', AStr (GetName K u)),
      (''labels'', str_map (GetLabels K u)),
      (''gateway_class'', AStr (UStr K u [''spec'', ''gatewayClassName''])),
      (''listeners'', AList (parseListeners K u)),
      (''spec_addresses'', AList (parseAddresses K u [''spec'', ''addresses''])),
      (''addresses'', AList (parseAddresses K u [''status'', ''addresses'']))] c"

definition emitGatewayClass :: "kapi \<Rightarrow> string \<Rightarrow> gvr \<Rightarrow> uobject \<Rightarrow> collector \<Rightarrow> collector" where
  "emitGatewayClass K event g u c = log_event event ''GatewayClass''
     [(''api_version'', AStr (GroupVersionString K (g_Group g) (g_Version g))),
      (''uid'', AStr (GetUID K u)),
      (''name'', AStr (GetName K u)),
      (''labels'', str_map (GetLabels K u)),
      (''controller'', AStr (UStr K u [''spec'', ''controllerName'']))] c"

definition emitRoute :: "kapi \<Rightarrow> string \<Rightarrow> gvr \<Rightarrow> uobject \<Rightarrow> string \<Rightarrow> collector \<Rightarrow> collector" where
  "emitRoute K event g u kind c = log_event event kind
     [(''api_version'', AStr (GroupVersionString K (g_Group g) (g_Version g))),
      (''uid'', AStr (GetUID K u)),
      (''namespace'', AStr (GetNamespace K u)),
      (''name'', AStr (GetName K u)),
      (''labels'', str_map (GetLabels K u)),
      (''parent_refs'', AList (parseParentRefs K u)),
      (''hostnames'', ustr_slice_json K u [''spec'', ''hostnames'']),
      (''backends'', nil_list (collectRouteBackends K u))] c"

definition EmitGatewayAPI :: "kapi \<Rightarrow> string \<Rightarrow> gvr \<Rightarrow> uobject \<Rightarrow> collector \<Rightarrow> collector" where
  "EmitGatewayAPI K event g u c =
     (if g_Resource g = ''gateways'' then emitGateway K event g u c
      else if g_Resource g = ''gatewayclasses'' then emitGatewayClass K event g u c
      else if g_Resource g = ''httproutes'' then emitRoute K event g u ''HTTPRoute'' c
      else if g_Resource g = ''grpcroutes'' then emitRoute K event g u ''GRPCRoute'' c
      else if g_Resource g = ''tlsroutes'' then emitRoute K event g u ''TLSRoute'' c
      else if g_Resource g = ''tcproutes'' then emitRoute K event g u ''TCPRoute'' c
      else c)"

definition kindFromResource :: "string \<Rightarrow> string" where
  "kindFromResource r =
     (if r = ''gateways'' then ''Gateway''
      else if r = ''gatewayclasses'' then ''GatewayClass''
      else if r = ''httproutes'' then ''HTTPRoute''
      else if r = ''grpcroutes'' then ''GRPCRoute''
      else if r = ''tlsroutes'' then ''TLSRoute''
      else if r = ''tcproutes'' then ''TCPRoute''
      else r)"

definition EmitGatewayAPIDelete :: "kapi \<Rightarrow> gvr \<Rightarrow> uobject \<Rightarrow> collector \<Rightarrow> collector" where
  "EmitGatewayAPIDelete K g u c = log_event ''DELETE'' (kindFromResource (g_Resource g))
     [(''api_version'', AStr (GroupVersionString K (g_Group g) (g_Version g))),
      (''uid'', AStr (GetUID K u)),
      (''namespace'', AStr (GetNamespace K u)),
      (''name'', AStr (GetName K u))] c"

subsection \<open>What discovery finds\<close>

definition gw_versions_known :: "string list" where
  "gw_versions_known = map fst gwAPIVersionRank"

definition gw_serves :: "(string \<Rightarrow> disc_result) \<Rightarrow> string \<Rightarrow> string \<Rightarrow> bool" where
  "gw_serves disc v r \<longleftrightarrow>
     (case disc (gwAPIGroup @ ''/'' @ v) of DResources rs \<Rightarrow> r \<in> set rs | _ \<Rightarrow> False)"

definition gw_offers :: "(string \<Rightarrow> disc_result) \<Rightarrow> string list \<Rightarrow> (string \<times> nat \<times> gvr) list" where
  "gw_offers disc vs = concat (map (\<lambda>v. case disc (gwAPIGroup @ ''/'' @ v) of
       DResources rs \<Rightarrow> map (\<lambda>r. (r, rank_of gwAPIVersionRank v,
         \<lparr>g_Group = gwAPIGroup, g_Version = v, g_Resource = r\<rparr>)) (filter wantResource rs)
     | _ \<Rightarrow> []) vs)"

lemma in_list_iff: "in_list name rs \<longleftrightarrow> name \<in> set rs"
  by (induction rs) auto

lemma wantResource_iff: "wantResource r \<longleftrightarrow> r \<in> set gwAPIResources"
  by (simp add: wantResource_def in_list_iff)

lemma wantResource_no_slash: "wantResource r \<Longrightarrow> \<not> contains r ''/''"
  by (auto simp: wantResource_iff gwAPIResources_def contains_char)

lemma gw_versions_cases:
  "v \<in> set gw_versions_known \<longleftrightarrow> v = ''v1'' \<or> v = ''v1beta1'' \<or> v = ''v1alpha2''"
  by (auto simp: gw_versions_known_def gwAPIVersionRank_def)

lemma gw_rank_simps:
  "rank_of gwAPIVersionRank ''v1'' = 3" "rank_of gwAPIVersionRank ''v1beta1'' = 2"
  "rank_of gwAPIVersionRank ''v1alpha2'' = 1"
  by (simp_all add: rank_of_def gwAPIVersionRank_def)

lemma gw_rank_inj:
  "v \<in> set gw_versions_known \<Longrightarrow> v' \<in> set gw_versions_known \<Longrightarrow>
   rank_of gwAPIVersionRank v = rank_of gwAPIVersionRank v' \<Longrightarrow> v = v'"
  by (auto simp: gw_versions_cases gw_rank_simps)

lemma gw_rank_pos: "v \<in> set gw_versions_known \<Longrightarrow> 0 < rank_of gwAPIVersionRank v"
  by (auto simp: gw_versions_cases gw_rank_simps)

lemma gw_scan_offers:
  "gw_scan (grp, v) rs br = offers (map (\<lambda>r. (r, rank_of gwAPIVersionRank v,
      \<lparr>g_Group = grp, g_Version = v, g_Resource = r\<rparr>)) (filter wantResource rs)) br"
  by (induction rs arbitrary: br) (auto dest: wantResource_no_slash)

context unstructured_api
begin

lemma gw_parse: "v \<in> set gw_versions_known \<Longrightarrow> ParseGroupVersion K (gwAPIGroup @ ''/'' @ v) = (gwAPIGroup, v)"
  using parse_print [of gwAPIGroup v] by (auto simp: gw_versions_cases gwAPIGroup_def)

lemma gw_versions_offers:
  "set vs \<subseteq> set gw_versions_known \<Longrightarrow> gw_versions K disc vs br = offers (gw_offers disc vs) br"
  by (induction vs arbitrary: br)
    (auto simp: gw_offers_def Let_def gw_parse gw_scan_offers simp del: append_Cons split: disc_result.split)

end

lemma gw_offers_one:
  "(r, k, g) \<in> set (gw_offers disc [v]) \<longleftrightarrow> gw_serves disc v r \<and> wantResource r \<and>
     k = rank_of gwAPIVersionRank v \<and> g = \<lparr>g_Group = gwAPIGroup, g_Version = v, g_Resource = r\<rparr>"
  by (cases "disc (gwAPIGroup @ ''/'' @ v)") (auto simp: gw_offers_def gw_serves_def)

lemma gw_offers_mem:
  "(r, k, g) \<in> set (gw_offers disc vs) \<longleftrightarrow>
     (\<exists>v\<in>set vs. gw_serves disc v r \<and> wantResource r \<and> k = rank_of gwAPIVersionRank v \<and>
        g = \<lparr>g_Group = gwAPIGroup, g_Version = v, g_Resource = r\<rparr>)"
proof (induction vs)
  case Nil
  then show ?case by (simp add: gw_offers_def)
next
  case (Cons v vs)
  have "gw_offers disc (v # vs) = gw_offers disc [v] @ gw_offers disc vs" by (simp add: gw_offers_def)
  then show ?case by (simp only: set_append Un_iff gw_offers_one Cons.IH) auto
qed

lemma gw_winner:
  assumes "set vs = set gw_versions_known"
  shows "(\<exists>k. winner (gw_offers disc vs) (g_Resource g) k g) \<longleftrightarrow>
    g_Group g = gwAPIGroup \<and> g_Version g \<in> set gw_versions_known \<and> wantResource (g_Resource g) \<and>
    gw_serves disc (g_Version g) (g_Resource g) \<and>
    (\<forall>v\<in>set gw_versions_known. gw_serves disc v (g_Resource g) \<longrightarrow>
       rank_of gwAPIVersionRank v \<le> rank_of gwAPIVersionRank (g_Version g))"
proof -
  have fn: "g1 = g2" if "(r, k, g1) \<in> set (gw_offers disc vs)" "(r, k, g2) \<in> set (gw_offers disc vs)" for r k g1 g2
    using that assms by (auto simp: gw_offers_mem dest: gw_rank_inj)
  have "(\<exists>k. winner (gw_offers disc vs) (g_Resource g) k g) \<longleftrightarrow>
    (\<exists>k. (g_Resource g, k, g) \<in> set (gw_offers disc vs) \<and>
       (\<forall>k' g'. (g_Resource g, k', g') \<in> set (gw_offers disc vs) \<longrightarrow> k' \<le> k))"
    using winner_iff_max [of "g_Resource g" _ "gw_offers disc vs" g] fn by meson
  also have "\<dots> \<longleftrightarrow> g_Group g = gwAPIGroup \<and> g_Version g \<in> set gw_versions_known \<and> wantResource (g_Resource g) \<and>
    gw_serves disc (g_Version g) (g_Resource g) \<and>
    (\<forall>v\<in>set gw_versions_known. gw_serves disc v (g_Resource g) \<longrightarrow>
       rank_of gwAPIVersionRank v \<le> rank_of gwAPIVersionRank (g_Version g))"
    unfolding gw_offers_mem assms by (cases g) auto
  finally show ?thesis .
qed

context unstructured_api
begin

lemma gateway_discovery:
  assumes "mset order = mset gw_versions_known"
  shows "g \<in> set (DiscoverGatewayAPI K disc order) \<longleftrightarrow>
      g_Group g = gwAPIGroup \<and> g_Version g \<in> set gw_versions_known \<and> wantResource (g_Resource g) \<and>
      gw_serves disc (g_Version g) (g_Resource g) \<and>
      (\<forall>v\<in>set gw_versions_known. gw_serves disc v (g_Resource g) \<longrightarrow>
         rank_of gwAPIVersionRank v \<le> rank_of gwAPIVersionRank (g_Version g))"
    and "sorted (map g_Resource (DiscoverGatewayAPI K disc order))"
    and "distinct (map g_Resource (DiscoverGatewayAPI K disc order))"
proof -
  have set: "set order = set gw_versions_known" using assms by (metis set_mset_mset)
  then have eq: "DiscoverGatewayAPI K disc order = sort_gvrs (offers (gw_offers disc order) ([], []))"
    by (simp add: DiscoverGatewayAPI_def gw_versions_offers)
  have pos: "0 < k" and res: "g_Resource g = r" if "(r, k, g) \<in> set (gw_offers disc order)" for r k g
    using that set by (auto simp: gw_offers_mem gw_rank_pos)
  have spec: "g \<in> set (sort_gvrs (offers (gw_offers disc order) ([], []))) \<longleftrightarrow>
      (\<exists>k. winner (gw_offers disc order) (g_Resource g) k g)"
    "sorted (map g_Resource (sort_gvrs (offers (gw_offers disc order) ([], []))))"
    "distinct (map g_Resource (sort_gvrs (offers (gw_offers disc order) ([], []))))"
    using sort_gvrs_spec [of "gw_offers disc order"] pos res by blast+
  show "g \<in> set (DiscoverGatewayAPI K disc order) \<longleftrightarrow>
      g_Group g = gwAPIGroup \<and> g_Version g \<in> set gw_versions_known \<and> wantResource (g_Resource g) \<and>
      gw_serves disc (g_Version g) (g_Resource g) \<and>
      (\<forall>v\<in>set gw_versions_known. gw_serves disc v (g_Resource g) \<longrightarrow>
         rank_of gwAPIVersionRank v \<le> rank_of gwAPIVersionRank (g_Version g))"
    unfolding eq using spec(1) gw_winner [OF set, of disc g] by (rule trans)
  show "sorted (map g_Resource (DiscoverGatewayAPI K disc order))"
    and "distinct (map g_Resource (DiscoverGatewayAPI K disc order))"
    unfolding eq using spec(2,3) by this+
qed

end

text \<open>C13: discovery watches each Gateway API resource the server offers at the best version it offers
  it in (v1 over v1beta1 over v1alpha2), and nothing else; the order in which Go walks the version map
  has no influence on the result.\<close>

theorem gateway_discovery_best:
  assumes "unstructured_api K" and "mset order = mset gw_versions_known"
  shows "(g \<in> set (DiscoverGatewayAPI K disc order) \<longleftrightarrow>
      g_Group g = gwAPIGroup \<and> g_Version g \<in> set gw_versions_known \<and> wantResource (g_Resource g) \<and>
      gw_serves disc (g_Version g) (g_Resource g) \<and>
      (\<forall>v\<in>set gw_versions_known. gw_serves disc v (g_Resource g) \<longrightarrow>
         rank_of gwAPIVersionRank v \<le> rank_of gwAPIVersionRank (g_Version g))) \<and>
    DiscoverGatewayAPI K disc order = DiscoverGatewayAPI K disc gw_versions_known"
proof
  note disco = unstructured_api.gateway_discovery [OF assms(1)]
  show "g \<in> set (DiscoverGatewayAPI K disc order) \<longleftrightarrow>
      g_Group g = gwAPIGroup \<and> g_Version g \<in> set gw_versions_known \<and> wantResource (g_Resource g) \<and>
      gw_serves disc (g_Version g) (g_Resource g) \<and>
      (\<forall>v\<in>set gw_versions_known. gw_serves disc v (g_Resource g) \<longrightarrow>
         rank_of gwAPIVersionRank v \<le> rank_of gwAPIVersionRank (g_Version g))"
    by (rule disco(1) [OF assms(2)])
  have "set (DiscoverGatewayAPI K disc order) = set (DiscoverGatewayAPI K disc gw_versions_known)"
    using disco(1) [OF assms(2)] disco(1) [OF refl] by blast
  then show "DiscoverGatewayAPI K disc order = DiscoverGatewayAPI K disc gw_versions_known"
    using disco(2,3) [OF assms(2)] disco(2,3) [OF refl] by (intro sorted_keys_unique [of g_Resource])
qed

theorem gateway_discovery_best_witness:
  "\<lparr>g_Group = gwAPIGroup, g_Version = ''v1'', g_Resource = ''gateways''\<rparr> \<in>
     set (DiscoverGatewayAPI ref_kapi
       (\<lambda>gv. if gv = ''gateway.networking.k8s.io/v1'' then DResources [''gateways'', ''gateways/status'']
            else if gv = ''gateway.networking.k8s.io/v1beta1'' then DResources [''gateways''] else DError True)
       [''v1beta1'', ''v1alpha2'', ''v1''])"
proof -
  have order: "mset [''v1beta1'', ''v1alpha2'', ''v1''] = mset gw_versions_known"
    by (simp add: gw_versions_known_def gwAPIVersionRank_def)
  show ?thesis
    unfolding gateway_discovery_best [OF ref_api.unstructured_api_axioms order, THEN conjunct1]
    by (simp add: gw_serves_def gwAPIGroup_def wantResource_iff gwAPIResources_def gw_versions_known_def
        gwAPIVersionRank_def rank_of_def)
qed

subsection \<open>What the Gateway operations log\<close>

definition gateway_attrs :: "kapi \<Rightarrow> gvr \<Rightarrow> uobject \<Rightarrow> attr list" where
  "gateway_attrs K g u =
     [(''api_version'', AStr (GroupVersionString K (g_Group g) (g_Version g))), (''uid'', AStr (GetUID K u)),
      (''namespace'', AStr (GetNamespace K u)), (''name'', AStr (GetName K u)),
      (''labels'', str_map (GetLabels K u)),
      (''gateway_class'', AStr (UStr K u [''spec'', ''gatewayClassName''])),
      (''listeners'', AList (parseListeners K u)),
      (''spec_addresses'', AList (parseAddresses K u [''spec'', ''addresses''])),
      (''addresses'', AList (parseAddresses K u [''status'', ''addresses'']))]"

definition gateway_class_attrs :: "kapi \<Rightarrow> gvr \<Rightarrow> uobject \<Rightarrow> attr list" where
  "gateway_class_attrs K g u =
     [(''api_version'', AStr (GroupVersionString K (g_Group g) (g_Version g))), (''uid'', AStr (GetUID K u)),
      (''name'', AStr (GetName K u)), (''labels'', str_map (GetLabels K u)),
      (''controller'', AStr (UStr K u [''spec'', ''controllerName'']))]"

definition route_attrs :: "kapi \<Rightarrow> gvr \<Rightarrow> uobject \<Rightarrow> attr list" where
  "route_attrs K g u =
     [(''api_version'', AStr (GroupVersionString K (g_Group g) (g_Version g))), (''uid'', AStr (GetUID K u)),
      (''namespace'', AStr (GetNamespace K u)), (''name'', AStr (GetName K u)),
      (''labels'', str_map (GetLabels K u)), (''parent_refs'', AList (parseParentRefs K u)),
      (''hostnames'', ustr_slice_json K u [''spec'', ''hostnames'']),
      (''backends'', nil_list (collectRouteBackends K u))]"

definition gateway_api_outs :: "kapi \<Rightarrow> string \<Rightarrow> gvr \<Rightarrow> uobject \<Rightarrow> out list" where
  "gateway_api_outs K event g u =
     (if \<not> wantResource (g_Resource g) then []
      else [ORec event (kindFromResource (g_Resource g))
        (if g_Resource g = ''gateways'' then gateway_attrs K g u
         else if g_Resource g = ''gatewayclasses'' then gateway_class_attrs K g u
         else route_attrs K g u)])"

definition gateway_api_delete_outs :: "kapi \<Rightarrow> gvr \<Rightarrow> uobject \<Rightarrow> out list" where
  "gateway_api_delete_outs K g u = [ORec ''DELETE'' (kindFromResource (g_Resource g))
     [(''api_version'', AStr (GroupVersionString K (g_Group g) (g_Version g))), (''uid'', AStr (GetUID K u)),
      (''namespace'', AStr (GetNamespace K u)), (''name'', AStr (GetName K u))]]"

lemma EmitGatewayAPI_outs: "EmitGatewayAPI K event g u c = log_outs (gateway_api_outs K event g u) c"
  by (auto simp: EmitGatewayAPI_def gateway_api_outs_def wantResource_iff gwAPIResources_def
      kindFromResource_def emitGateway_def gateway_attrs_def emitGatewayClass_def gateway_class_attrs_def
      emitRoute_def route_attrs_def log_outs_Cons)

lemma EmitGatewayAPIDelete_outs:
  "EmitGatewayAPIDelete K g u c = log_outs (gateway_api_delete_outs K g u) c"
  by (simp add: EmitGatewayAPIDelete_def gateway_api_delete_outs_def log_outs_Cons)

lemma gateway_api_outs_rec:
  "list_all is_rec (gateway_api_outs K event g u)" "list_all is_rec (gateway_api_delete_outs K g u)"
  by (simp_all add: gateway_api_outs_def gateway_api_delete_outs_def)

interpretation gateway_initial: emitter
  "\<lambda>u c. (1, EmitGatewayAPI K ''INITIAL'' g u c)" "gateway_api_outs K ''INITIAL'' g" "\<lambda>_. 1"
  for K :: kapi and g :: gvr
  by unfold_locales (simp_all add: EmitGatewayAPI_outs gateway_api_outs_rec)

text \<open>
  Two weights that mean different things reach the record as the same value: a backend of weight 0
  (it gets no traffic) and one without a weight (the default, 1).
\<close>

lemma weight_zero_is_lost:
  "backendRef_json ref_kapi [(''name'', UString ''a''), (''weight'', UInt 0)] =
   backendRef_json ref_kapi [(''name'', UString ''a'')]"
  by (simp add: backendRef_json_def UStr_def UInt32_def ref_kapi_def nested.simps found_or_def as_string_def
      as_int_def omit_i32_def omit_str_def)

end
