(* ===== verification/Traefik.thy ===== *)
theory Traefik
  imports Gateway
begin

section \<open>Traefik: traefik.go\<close>

subsection \<open>Discovery\<close>

definition traefikGroups :: "string list" where
  "traefikGroups = [''traefik.io'', ''traefik.containo.us'']"

definition traefikGroupRank :: "(string \<times> nat) list" where
  "traefikGroupRank = [(''traefik.io'', 2), (''traefik.containo.us'', 1)]"

definition traefikResources :: "string list" where
  "traefikResources = [''ingressroutes'', ''ingressroutetcps'', ''ingressrouteudps'']"

definition wantTraefikResource :: "string \<Rightarrow> bool" where
  "wantTraefikResource name = in_list name traefikResources"

fun tr_scan :: "string \<times> string \<Rightarrow> string list \<Rightarrow> best_rank \<Rightarrow> best_rank" where
  "tr_scan parsed [] br = br"
| "tr_scan parsed (r # rs) br =
     (if \<not> wantTraefikResource r then tr_scan parsed rs br
      else tr_scan parsed rs (offer r (rank_of traefikGroupRank (fst parsed))
        \<lparr>g_Group = fst parsed, g_Version = snd parsed, g_Resource = r\<rparr> br))"

fun tr_versions :: "kapi \<Rightarrow> (string \<Rightarrow> disc_result) \<Rightarrow> string \<Rightarrow> string list \<Rightarrow> best_rank \<Rightarrow> best_rank" where
  "tr_versions K disc grp [] br = br"
| "tr_versions K disc grp (v # vs) br =
     (let gv = grp @ ''/'' @ v
      in (case disc gv of
            DError notFound \<Rightarrow> tr_versions K disc grp vs br
          | DNil \<Rightarrow> tr_versions K disc grp vs br
          | DResources rs \<Rightarrow> tr_versions K disc grp vs (tr_scan (ParseGroupVersion K gv) rs br)))"

fun tr_groups :: "kapi \<Rightarrow> (string \<Rightarrow> disc_result) \<Rightarrow> string list \<Rightarrow> best_rank \<Rightarrow> best_rank" where
  "tr_groups K disc [] br = br"
| "tr_groups K disc (g # gs) br = tr_groups K disc gs (tr_versions K disc g [''v1'', ''v1alpha1''] br)"

definition DiscoverTraefik :: "kapi \<Rightarrow> (string \<Rightarrow> disc_result) \<Rightarrow> gvr list" where
  "DiscoverTraefik K disc = sort_gvrs (tr_groups K disc traefikGroups ([], []))"

subsection \<open>Hosts in a match string\<close>

text \<open>
  The two regular expressions.  \<open>hostMatcherRe\<close> matches one of the four matcher names, an
  opening parenthesis, everything up to the first closing parenthesis (the captured argument) and
  that parenthesis; \<open>backtickedRe\<close> matches a non-empty stretch between backticks.
  \<^verbatim>\<open>FindAllStringSubmatch\<close> looks for the leftmost match and goes on after it.
\<close>

definition hostMatchers :: "string list" where
  "hostMatchers = [''HostSNI('', ''HostHeader('', ''HostRegexp('', ''Host('']"

definition upto_char :: "char \<Rightarrow> string \<Rightarrow> (string \<times> string) option" where
  "upto_char c s = (case dropWhile (\<lambda>x. x \<noteq> c) s of [] \<Rightarrow> None
     | _ # rest \<Rightarrow> Some (takeWhile (\<lambda>x. x \<noteq> c) s, rest))"

definition match_host :: "string \<Rightarrow> (string \<times> string) option" where
  "match_host s = (case find (\<lambda>m. prefix m s) hostMatchers of None \<Rightarrow> None
     | Some m \<Rightarrow> upto_char (CHR '')'') (drop (length m) s))"

lemma upto_char_length: "upto_char c s = Some (a, rest) \<Longrightarrow> length rest < length s"
  using length_dropWhile_le [of "\<lambda>x. x \<noteq> c" s] by (auto simp: upto_char_def split: list.splits)

lemma match_host_length: "match_host s = Some (a, rest) \<Longrightarrow> length rest < length s"
  by (auto simp: match_host_def split: option.splits dest!: upto_char_length)

function find_host_calls :: "string \<Rightarrow> string list" where
  "find_host_calls s = (case s of [] \<Rightarrow> []
     | x # xs \<Rightarrow> (case match_host s of
         None \<Rightarrow> find_host_calls xs
       | Some (arg, rest) \<Rightarrow> arg # find_host_calls rest))"
  by pat_completeness auto
termination
  by (relation "measure length") (auto dest: match_host_length)

function find_backticked :: "string \<Rightarrow> string list" where
  "find_backticked s = (case s of [] \<Rightarrow> []
     | x # xs \<Rightarrow> (if x \<noteq> CHR ''`'' then find_backticked xs
         else (case upto_char (CHR ''`'') xs of
                 None \<Rightarrow> find_backticked xs
               | Some (inner', rest) \<Rightarrow>
                   if inner' = [] then find_backticked xs else inner' # find_backticked rest)))"
  by pat_completeness auto
termination
  by (relation "measure length") (auto dest: upto_char_length)

declare find_host_calls.simps [simp del] find_backticked.simps [simp del]

definition match_hosts :: "string \<Rightarrow> string list" where
  "match_hosts s = concat (map find_backticked (find_host_calls s))"

definition route_matches :: "kapi \<Rightarrow> uobject \<Rightarrow> string list" where
  "route_matches K u = filter (\<lambda>m. m \<noteq> []) (map_objs (\<lambda>rm. UStr K rm [''match'']) (USlice K u [''spec'', ''routes'']))"

definition ExtractTraefikHosts :: "kapi \<Rightarrow> uobject \<Rightarrow> string list" where
  "ExtractTraefikHosts K u = dedup_by (\<lambda>h. h) [] (concat (map match_hosts (route_matches K u)))"

subsection \<open>Backends\<close>

record BackendTarget =
  bt_Namespace :: string
  bt_Name :: string

text \<open>
  The body of the inner loop, shared by \<open>TraefikBackends\<close> and \<open>RouteBackends\<close>: a
  reference to anything but a service is skipped, and the namespace defaults to the object's.
\<close>

definition backend_target :: "kapi \<Rightarrow> uobject \<Rightarrow> uval \<Rightarrow> BackendTarget option" where
  "backend_target K u x =
     (case as_map x of None \<Rightarrow> None
      | Some m \<Rightarrow>
          let kind = UStr K m [''kind'']; nm = UStr K m [''name'']; ns = UStr K m [''namespace'']
          in if kind \<noteq> [] \<and> kind \<noteq> ''Service'' then None
             else if nm = [] then None
             else Some \<lparr>bt_Namespace = (if ns = [] then GetNamespace K u else ns), bt_Name = nm\<rparr>)"

definition TraefikBackends :: "kapi \<Rightarrow> uobject \<Rightarrow> BackendTarget list" where
  "TraefikBackends K u = concat
     (map_objs (\<lambda>rm. List.map_filter (backend_target K u) (USlice K rm [''services'']))
       (USlice K u [''spec'', ''routes'']))"

subsection \<open>Records\<close>

definition traefikKindFromResource :: "string \<Rightarrow> string" where
  "traefikKindFromResource r =
     (if r = ''ingressroutes'' then ''IngressRoute''
      else if r = ''ingressroutetcps'' then ''IngressRouteTCP''
      else if r = ''ingressrouteudps'' then ''IngressRouteUDP''
      else r)"

text \<open>\<open>BackendTarget\<close> has no JSON tags: its fields are rendered under their Go names.\<close>

definition BackendTarget_json :: "BackendTarget \<Rightarrow> aval" where
  "BackendTarget_json t = AObj [(''Namespace'', AStr (bt_Namespace t)), (''Name'', AStr (bt_Name t))]"

definition traefik_attrs :: "kapi \<Rightarrow> gvr \<Rightarrow> uobject \<Rightarrow> attr list" where
  "traefik_attrs K g u =
     [(''api_version'', AStr (GroupVersionString K (g_Group g) (g_Version g))),
      (''uid'', AStr (GetUID K u)),
      (''namespace'', AStr (GetNamespace K u)),
      (''name'', AStr (GetName K u)),
      (''labels'', str_map (GetLabels K u)),
      (''entry_points'', ustr_slice_json K u [''spec'', ''entryPoints'']),
      (''hosts'', nil_str_list (ExtractTraefikHosts K u)),
      (''tls_secret'', AStr (UStr K u [''spec'', ''tls'', ''secretName''])),
      (''backends'', nil_list (map BackendTarget_json (TraefikBackends K u)))]"

definition EmitTraefik :: "kapi \<Rightarrow> string \<Rightarrow> gvr \<Rightarrow> uobject \<Rightarrow> collector \<Rightarrow> collector" where
  "EmitTraefik K event g u c = log_event event (traefikKindFromResource (g_Resource g)) (traefik_attrs K g u) c"

definition EmitTraefikDelete :: "kapi \<Rightarrow> gvr \<Rightarrow> uobject \<Rightarrow> collector \<Rightarrow> collector" where
  "EmitTraefikDelete K g u c = log_event ''DELETE'' (traefikKindFromResource (g_Resource g))
     [(''api_version'', AStr (GroupVersionString K (g_Group g) (g_Version g))),
      (''uid'', AStr (GetUID K u)),
      (''namespace'', AStr (GetNamespace K u)),
      (''name'', AStr (GetName K u))] c"

definition traefik_outs :: "kapi \<Rightarrow> string \<Rightarrow> gvr \<Rightarrow> uobject \<Rightarrow> out list" where
  "traefik_outs K event g u = [ORec event (traefikKindFromResource (g_Resource g)) (traefik_attrs K g u)]"

definition traefik_delete_outs :: "kapi \<Rightarrow> gvr \<Rightarrow> uobject \<Rightarrow> out list" where
  "traefik_delete_outs K g u = [ORec ''DELETE'' (traefikKindFromResource (g_Resource g))
     [(''api_version'', AStr (GroupVersionString K (g_Group g) (g_Version g))), (''uid'', AStr (GetUID K u)),
      (''namespace'', AStr (GetNamespace K u)), (''name'', AStr (GetName K u))]]"

lemma traefik_ops_outs:
  "EmitTraefik K event g u c = log_outs (traefik_outs K event g u) c"
  "EmitTraefikDelete K g u c = log_outs (traefik_delete_outs K g u) c"
  by (simp_all add: EmitTraefik_def traefik_outs_def EmitTraefikDelete_def traefik_delete_outs_def log_outs_Cons)

interpretation traefik_initial: exact_emitter
  "\<lambda>u c. (1, EmitTraefik K ''INITIAL'' g u c)" "traefik_outs K ''INITIAL'' g" "\<lambda>_. 1"
  for K :: kapi and g :: gvr
  by unfold_locales (simp_all add: traefik_ops_outs traefik_outs_def)

subsection \<open>What discovery finds\<close>

text \<open>
  The group versions in the order of preference; the resource is watched in the first one that
  serves it.
\<close>

definition tr_preference :: "(string \<times> string) list" where
  "tr_preference = [(''traefik.io'', ''v1''), (''traefik.io'', ''v1alpha1''),
     (''traefik.containo.us'', ''v1''), (''traefik.containo.us'', ''v1alpha1'')]"

definition tr_serves :: "(string \<Rightarrow> disc_result) \<Rightarrow> string \<Rightarrow> string \<times> string \<Rightarrow> bool" where
  "tr_serves disc r gv = (case disc (fst gv @ ''/'' @ snd gv) of DResources rs \<Rightarrow> r \<in> set rs | _ \<Rightarrow> False)"

definition tr_offers1 :: "(string \<Rightarrow> disc_result) \<Rightarrow> string \<times> string \<Rightarrow> (string \<times> nat \<times> gvr) list" where
  "tr_offers1 disc gv = (case disc (fst gv @ ''/'' @ snd gv) of
       DResources rs \<Rightarrow> map (\<lambda>r. (r, rank_of traefikGroupRank (fst gv),
         \<lparr>g_Group = fst gv, g_Version = snd gv, g_Resource = r\<rparr>)) (filter wantTraefikResource rs)
     | _ \<Rightarrow> [])"

lemma tr_scan_offers:
  "tr_scan gv rs br = offers (map (\<lambda>r. (r, rank_of traefikGroupRank (fst gv),
      \<lparr>g_Group = fst gv, g_Version = snd gv, g_Resource = r\<rparr>)) (filter wantTraefikResource rs)) br"
  by (induction rs arbitrary: br) auto

lemma tr_rank: "gv \<in> set tr_preference \<Longrightarrow>
    rank_of traefikGroupRank (fst gv) = (if fst gv = ''traefik.io'' then 2 else 1)"
  by (auto simp: tr_preference_def rank_of_def traefikGroupRank_def)

context unstructured_api
begin

lemma tr_versions_offers:
  assumes "CHR ''/'' \<notin> set grp" "grp \<noteq> []" "set vs \<subseteq> {''v1'', ''v1alpha1''}"
  shows "tr_versions K disc grp vs br = offers (concat (map (\<lambda>v. tr_offers1 disc (grp, v)) vs)) br"
  using assms(3)
proof (induction vs arbitrary: br)
  case (Cons v vs)
  have "ParseGroupVersion K (grp @ ''/'' @ v) = (grp, v)" using parse_print [of grp v] assms(1,2) Cons.prems by auto
  with Cons show ?case
    by (auto simp: tr_offers1_def Let_def tr_scan_offers simp del: append_Cons split: disc_result.split)
qed simp

lemma tr_groups_offers:
  "tr_groups K disc traefikGroups br = offers (concat (map (tr_offers1 disc) tr_preference)) br"
  by (simp add: traefikGroups_def tr_preference_def tr_versions_offers del: tr_versions.simps)

end

lemma tr_offers_mem:
  "(r, k, g) \<in> set (concat (map (tr_offers1 disc) gvs)) \<longleftrightarrow> (\<exists>gv\<in>set gvs. tr_serves disc r gv \<and>
     wantTraefikResource r \<and> k = rank_of traefikGroupRank (fst gv) \<and>
     g = \<lparr>g_Group = fst gv, g_Version = snd gv, g_Resource = r\<rparr>)"
proof (induction gvs)
  case (Cons gv gvs)
  have "(r, k, g) \<in> set (tr_offers1 disc gv) \<longleftrightarrow> tr_serves disc r gv \<and> wantTraefikResource r \<and>
      k = rank_of traefikGroupRank (fst gv) \<and> g = \<lparr>g_Group = fst gv, g_Version = snd gv, g_Resource = r\<rparr>"
    by (cases "disc (fst gv @ ''/'' @ snd gv)") (auto simp: tr_offers1_def tr_serves_def)
  with Cons show ?case by (simp only: list.map concat.simps set_append Un_iff) auto
qed simp

lemma find_offers1: "find (\<lambda>x. fst x = r) (tr_offers1 disc gv) =
    (if tr_serves disc r gv \<and> wantTraefikResource r
     then Some (r, rank_of traefikGroupRank (fst gv), \<lparr>g_Group = fst gv, g_Version = snd gv, g_Resource = r\<rparr>)
     else None)"
proof (cases "disc (fst gv @ ''/'' @ snd gv)")
  case (DResources rs)
  have "find (\<lambda>x. fst x = r) (map (\<lambda>r. (r, h r)) (filter wantTraefikResource rs)) =
      (if r \<in> set rs \<and> wantTraefikResource r then Some (r, h r) else None)" for h :: "string \<Rightarrow> nat \<times> gvr"
    by (induction rs) auto
  with DResources show ?thesis by (simp add: tr_offers1_def tr_serves_def)
qed (simp_all add: tr_offers1_def tr_serves_def)

lemma find_offers: "find (\<lambda>x. fst x = r) (concat (map (tr_offers1 disc) gvs)) =
    (if wantTraefikResource r then map_option (\<lambda>gv. (r, rank_of traefikGroupRank (fst gv),
       \<lparr>g_Group = fst gv, g_Version = snd gv, g_Resource = r\<rparr>)) (find (tr_serves disc r) gvs) else None)"
  by (induction gvs) (auto simp: find_append find_offers1 split: option.split)

lemma tr_offers_sorted: "sorted_wrt (\<lambda>x y. fst (snd y) \<le> fst (snd x)) (concat (map (tr_offers1 disc) tr_preference))"
proof -
  have const: "x \<in> set (tr_offers1 disc gv) \<Longrightarrow> fst (snd x) = rank_of traefikGroupRank (fst gv)" for x gv
    by (auto simp: tr_offers1_def split: disc_result.splits)
  have one: "sorted_wrt (\<lambda>x y. fst (snd y) \<le> fst (snd x)) (tr_offers1 disc gv)" for gv
    by (rule sorted_wrt_mono_rel [of _ "\<lambda>x y. True"]) (simp_all add: const sorted_wrt_iff_nth_less)
  show ?thesis
    by (auto simp: tr_preference_def sorted_wrt_append one rank_of_def traefikGroupRank_def dest!: const)
qed

lemma traefik_discovery:
  assumes "unstructured_api K"
  shows "g \<in> set (DiscoverTraefik K disc) \<longleftrightarrow> wantTraefikResource (g_Resource g) \<and>
      find (tr_serves disc (g_Resource g)) tr_preference = Some (g_Group g, g_Version g)"
    and "sorted (map g_Resource (DiscoverTraefik K disc))"
    and "distinct (map g_Resource (DiscoverTraefik K disc))"
proof -
  define os where "os = concat (map (tr_offers1 disc) tr_preference)"
  have eq: "DiscoverTraefik K disc = sort_gvrs (offers os ([], []))"
    by (simp add: DiscoverTraefik_def unstructured_api.tr_groups_offers [OF assms] os_def)
  have pos: "0 < k" and res: "g_Resource g = r" if "(r, k, g) \<in> set os" for r k g
    using that unfolding os_def by (auto simp: tr_offers_mem tr_rank simp del: set_concat)
  have spec: "\<And>g. g \<in> set (sort_gvrs (offers os ([], []))) \<longleftrightarrow> (\<exists>k. winner os (g_Resource g) k g)"
    "sorted (map g_Resource (sort_gvrs (offers os ([], []))))"
    "distinct (map g_Resource (sort_gvrs (offers os ([], []))))"
    using sort_gvrs_spec [of os] pos res by blast+
  have "(\<exists>k. winner os (g_Resource g) k g) \<longleftrightarrow> (\<exists>k. find (\<lambda>x. fst x = g_Resource g) os = Some (g_Resource g, k, g))"
    using winner_first [of os] tr_offers_sorted by (simp add: os_def)
  also have "\<dots> \<longleftrightarrow> wantTraefikResource (g_Resource g) \<and>
      find (tr_serves disc (g_Resource g)) tr_preference = Some (g_Group g, g_Version g)"
    by (cases g) (auto simp: os_def find_offers)
  finally show "g \<in> set (DiscoverTraefik K disc) \<longleftrightarrow> wantTraefikResource (g_Resource g) \<and>
      find (tr_serves disc (g_Resource g)) tr_preference = Some (g_Group g, g_Version g)"
    using spec(1) [of g] by (simp add: eq)
  show "sorted (map g_Resource (DiscoverTraefik K disc))" "distinct (map g_Resource (DiscoverTraefik K disc))"
    using spec(2,3) by (simp_all add: eq)
qed

text \<open>C14: each Traefik route resource the server offers is watched exactly once, in the first of
  traefik.io/v1, traefik.io/v1alpha1, traefik.containo.us/v1, traefik.containo.us/v1alpha1 that
  serves it; nothing else is watched, and the list is sorted by resource.\<close>

theorem traefik_discovery_first:
  assumes "unstructured_api K"
  shows "(g \<in> set (DiscoverTraefik K disc) \<longleftrightarrow> wantTraefikResource (g_Resource g) \<and>
      find (tr_serves disc (g_Resource g)) tr_preference = Some (g_Group g, g_Version g)) \<and>
    sorted (map g_Resource (DiscoverTraefik K disc)) \<and> distinct (map g_Resource (DiscoverTraefik K disc))"
  using traefik_discovery [OF assms] by blast

theorem traefik_discovery_first_witness:
  "\<lparr>g_Group = ''traefik.io'', g_Version = ''v1alpha1'', g_Resource = ''ingressroutes''\<rparr> \<in> set (DiscoverTraefik ref_kapi
     (\<lambda>gv. if gv = ''traefik.io/v1alpha1'' \<or> gv = ''traefik.containo.us/v1alpha1''
       then DResources [''middlewares'', ''ingressroutes''] else DError True))"
  unfolding traefik_discovery_first [OF ref_api.unstructured_api_axioms, THEN conjunct1]
  by (simp add: tr_preference_def tr_serves_def wantTraefikResource_def traefikResources_def)

subsection \<open>What the host extraction finds\<close>

text \<open>
  A match string the way Traefik users write it: calls of a host matcher on backticked hosts, and
  other text in between, which mentions no \<^verbatim>\<open>Host...\<close> name.
\<close>

datatype rule_part = Hosts string "string list" | Other string

fun quoted_hosts :: "string list \<Rightarrow> string" where
  "quoted_hosts [] = []"
| "quoted_hosts [h] = CHR ''`'' # h @ [CHR ''`'']"
| "quoted_hosts (h # h' # hs) = CHR ''`'' # h @ [CHR ''`'', CHR '','', CHR '' ''] @ quoted_hosts (h' # hs)"

fun part_text :: "rule_part \<Rightarrow> string" where
  "part_text (Hosts m hs) = m @ quoted_hosts hs @ '')''"
| "part_text (Other s) = s"

fun part_hosts :: "rule_part \<Rightarrow> string list" where
  "part_hosts (Hosts m hs) = hs"
| "part_hosts (Other s) = []"

definition plain_host :: "string \<Rightarrow> bool" where
  "plain_host h \<longleftrightarrow> h \<noteq> [] \<and> CHR ''`'' \<notin> set h \<and> CHR '')'' \<notin> set h"

fun no_host_name :: "string \<Rightarrow> bool" where
  "no_host_name [] = True"
| "no_host_name (c # s) \<longleftrightarrow> \<not> prefix ''Host'' (c # s) \<and> no_host_name s"

fun part_ok :: "rule_part \<Rightarrow> bool" where
  "part_ok (Hosts m hs) \<longleftrightarrow> m \<in> set hostMatchers \<and> list_all plain_host hs"
| "part_ok (Other s) \<longleftrightarrow> no_host_name s \<and> (s = [] \<or> last s \<notin> set ''Hos'')"

definition rule_text :: "rule_part list \<Rightarrow> string" where
  "rule_text ps = concat (map part_text ps)"

definition rule_hosts :: "rule_part list \<Rightarrow> string list" where
  "rule_hosts ps = concat (map part_hosts ps)"

lemma upto_char_append: "c \<notin> set a \<Longrightarrow> upto_char c (a @ c # rest) = Some (a, rest)"
  by (induction a) (auto simp: upto_char_def split: list.splits)

lemma hostMatchers_cases:
  "m \<in> set hostMatchers \<longleftrightarrow> m = ''HostSNI('' \<or> m = ''HostHeader('' \<or> m = ''HostRegexp('' \<or> m = ''Host(''"
  by (simp add: hostMatchers_def)

lemma find_matcher: "m \<in> set hostMatchers \<Longrightarrow> find (\<lambda>m'. prefix m' (m @ s)) hostMatchers = Some m"
  unfolding hostMatchers_cases by (elim disjE) (simp_all add: hostMatchers_def)

lemma match_host_call:
  "m \<in> set hostMatchers \<Longrightarrow> CHR '')'' \<notin> set arg \<Longrightarrow> match_host (m @ arg @ CHR '')'' # rest) = Some (arg, rest)"
  by (simp add: match_host_def find_matcher upto_char_append)

lemma find_host_calls_call:
  assumes "m \<in> set hostMatchers" "CHR '')'' \<notin> set arg"
  shows "find_host_calls (m @ arg @ CHR '')'' # rest) = arg # find_host_calls rest"
proof -
  obtain x xs where m: "m @ arg @ CHR '')'' # rest = x # xs" by (cases "m @ arg @ CHR '')'' # rest") auto
  have "match_host (x # xs) = Some (arg, rest)" using match_host_call [OF assms] m by metis
  then show ?thesis unfolding m by (subst find_host_calls.simps) simp
qed

lemma matcher_starts_Host: "m \<in> set hostMatchers \<Longrightarrow> prefix ''Host'' m \<and> 4 < length m"
  by (auto simp: hostMatchers_cases)

lemma no_match_in_plain:
  assumes "no_host_name (c # s)" "last (c # s) \<notin> set ''Hos''"
  shows "match_host ((c # s) @ t) = None"
proof -
  have "\<not> prefix m ((c # s) @ t)" if m: "m \<in> set hostMatchers" for m
  proof
    assume "prefix m ((c # s) @ t)"
    with matcher_starts_Host [OF m] have host: "prefix ''Host'' ((c # s) @ t)"
      using prefix_order.trans by blast
    show False
    proof (cases "4 \<le> length (c # s)")
      case True
      with host have "prefix ''Host'' (c # s)" by (intro prefix_length_prefix [OF host]) (simp_all add: prefix_def)
      with assms(1) show False by simp
    next
      case False
      then obtain u where "(c # s) @ u = ''Host''" "u \<noteq> []"
        using host by (cases s; cases "tl s"; cases "tl (tl s)"; cases "tl (tl (tl s))") auto
      with assms(2) show False by (auto simp: append_eq_Cons_conv Cons_eq_append_conv)
    qed
  qed
  then have "find (\<lambda>m. prefix m ((c # s) @ t)) hostMatchers = None" by (auto simp: find_None_iff)
  then show ?thesis by (simp add: match_host_def)
qed

lemma find_host_calls_plain:
  "no_host_name s \<Longrightarrow> s = [] \<or> last s \<notin> set ''Hos'' \<Longrightarrow> find_host_calls (s @ t) = find_host_calls t"
proof (induction s)
  case (Cons c s)
  then have none: "match_host ((c # s) @ t) = None" by (intro no_match_in_plain) auto
  from Cons have "find_host_calls (s @ t) = find_host_calls t" by (cases s) auto
  with none show ?case by (simp add: find_host_calls.simps [of "c # s @ t"])
qed simp

lemma find_backticked_host:
  "plain_host h \<Longrightarrow> find_backticked (CHR ''`'' # h @ CHR ''`'' # s) = h # find_backticked s"
  by (subst find_backticked.simps) (simp add: upto_char_append plain_host_def)

lemma find_backticked_other: "c \<noteq> CHR ''`'' \<Longrightarrow> find_backticked (c # s) = find_backticked s"
  by (subst find_backticked.simps) simp

lemma find_backticked_quoted: "list_all plain_host hs \<Longrightarrow> find_backticked (quoted_hosts hs) = hs"
  by (induction hs rule: quoted_hosts.induct)
    (simp_all add: find_backticked.simps [of "[]"] find_backticked_host [where s = "[]", simplified]
      find_backticked_host find_backticked_other)

lemma no_paren_quoted: "list_all plain_host hs \<Longrightarrow> CHR '')'' \<notin> set (quoted_hosts hs)"
  by (induction hs rule: quoted_hosts.induct) (auto simp: plain_host_def)

lemma match_hosts_rule: "list_all part_ok ps \<Longrightarrow> match_hosts (rule_text ps) = rule_hosts ps"
proof (induction ps)
  case Nil
  then show ?case by (simp add: rule_text_def rule_hosts_def match_hosts_def find_host_calls.simps)
next
  case (Cons p ps)
  have "match_hosts (part_text p @ t) = part_hosts p @ match_hosts t" for t
  proof (cases p)
    case (Hosts m hs)
    with Cons.prems show ?thesis
      by (simp add: match_hosts_def find_host_calls_call no_paren_quoted find_backticked_quoted)
  next
    case (Other s)
    with Cons.prems show ?thesis by (simp add: match_hosts_def find_host_calls_plain)
  qed
  with Cons show ?case by (simp add: rule_text_def rule_hosts_def)
qed

text \<open>C15: of routes whose match strings are built from host matcher calls and other text, exactly the
  hosts named in the calls are extracted, each once, in the order of their first mention.\<close>

theorem traefik_hosts_exact:
  assumes "route_matches K u = map rule_text rules" and "list_all (list_all part_ok) rules"
  shows "ExtractTraefikHosts K u = dedup_by (\<lambda>h. h) [] (concat (map rule_hosts rules)) \<and>
    distinct (ExtractTraefikHosts K u) \<and> set (ExtractTraefikHosts K u) = (\<Union>ps\<in>set rules. set (rule_hosts ps))"
proof -
  have "map match_hosts (map rule_text rules) = map rule_hosts rules"
    using assms(2) by (auto simp: match_hosts_rule list_all_iff)
  then show ?thesis by (simp add: ExtractTraefikHosts_def assms(1) del: map_map)
qed

definition ingress_route_example :: uobject where
  "ingress_route_example = [(''spec'', UMap [(''routes'', USeq
     [UMap [(''match'', UString ''Host(`a.no`, `b.no`) && PathPrefix(`/x`)'')],
      UMap [(''match'', UString ''HostSNI(`a.no`)'')]])])]"

lemma ingress_route_example_matches:
  "route_matches ref_kapi ingress_route_example = map rule_text
     [[Hosts ''Host('' [''a.no'', ''b.no''], Other '' && PathPrefix(`/x`)''], [Hosts ''HostSNI('' [''a.no'']]]"
  by (simp add: route_matches_def ingress_route_example_def UStr_def USlice_def ref_kapi_def nested.simps
      found_or_def as_string_def as_slice_def map_objs_def as_map_def rule_text_def)

theorem traefik_hosts_exact_witness: "ExtractTraefikHosts ref_kapi ingress_route_example = [''a.no'', ''b.no'']"
  using traefik_hosts_exact [OF ingress_route_example_matches]
  by (simp add: hostMatchers_def plain_host_def rule_hosts_def)

text \<open>
  The first parenthesis closes the call, also one inside a regular expression: a
  \<^verbatim>\<open>HostRegexp\<close> with a group loses its host.
\<close>

lemma host_regexp_group_lost: "match_hosts ''HostRegexp(`(a|b).no`)'' = []"
  by (simp add: match_hosts_def find_host_calls.simps match_host_def hostMatchers_def upto_char_def
      find_backticked.simps)

end
