(* ===== verification/Refs.thy ===== *)
theory Refs
  imports Ingress Traefik
begin

section \<open>Cross references: refs.go\<close>

text \<open>
  Which services an ingress or route points at, the index keys derived from it, the lookup
  \<open>ServiceReferenced\<close> over the informers' indexes, and the re-emission of the services an
  event touches.  \<open>Refs\<close> of the code is the record \<open>refs\<close>: each member is \<^const>\<open>None\<close>
  until main sets it.  A lister is a function that returns \<^const>\<open>None\<close> for an error; an
  informer is seen through \<^verbatim>\<open>GetIndexer().ByIndex(BackendIndexName, key)\<close>, a function
  of the key.
\<close>

record refs =
  Services :: "(string \<Rightarrow> string \<Rightarrow> service option) option"
  Ingresses :: "(string \<Rightarrow> anyobj list) option"
  GWInformers :: "(string \<times> (string \<Rightarrow> anyobj list)) list"
  TRInformers :: "(string \<times> (string \<Rightarrow> anyobj list)) list"

fun any_indexed :: "(string \<times> (string \<Rightarrow> anyobj list)) list \<Rightarrow> string \<Rightarrow> bool" where
  "any_indexed [] key = False"
| "any_indexed ((gvr, by_index) # infs) key = (if by_index key \<noteq> [] then True else any_indexed infs key)"

definition ServiceReferenced :: "refs \<Rightarrow> string \<Rightarrow> string \<Rightarrow> bool" where
  "ServiceReferenced R ns nm =
     (let key = ns @ ''/'' @ nm
      in if (case Ingresses R of None \<Rightarrow> False | Some by_index \<Rightarrow> by_index key \<noteq> []) then True
         else if any_indexed (GWInformers R) key then True
         else any_indexed (TRInformers R) key)"

subsection \<open>Backends and index keys\<close>

definition BackendTargetsToKeys :: "BackendTarget list \<Rightarrow> string list" where
  "BackendTargetsToKeys targets =
     (if targets = [] then []
      else dedup_by (\<lambda>k. k) [] (map (\<lambda>t. bt_Namespace t @ ''/'' @ bt_Name t) targets))"

definition add_backend :: "ingress \<Rightarrow> ing_service_backend option \<Rightarrow> BackendTarget list" where
  "add_backend ing svc = (case svc of None \<Rightarrow> []
     | Some b \<Rightarrow> if ib_Name b \<noteq> [] then [\<lparr>bt_Namespace = m_Namespace (i_Meta ing), bt_Name = ib_Name b\<rparr>] else [])"

definition IngressBackends :: "ingress \<Rightarrow> BackendTarget list" where
  "IngressBackends ing =
     (case i_DefaultBackend ing of None \<Rightarrow> [] | Some b \<Rightarrow> add_backend ing (bk_Service b)) @
     concat (map (\<lambda>r. case ru_HTTP r of None \<Rightarrow> []
       | Some ps \<Rightarrow> concat (map (\<lambda>p. add_backend ing (bk_Service (hp_Backend p))) ps)) (i_Rules ing))"

definition IngressBackendKeys :: "anyobj \<Rightarrow> string list" where
  "IngressBackendKeys obj = (case as_Ingress obj of None \<Rightarrow> []
     | Some ing \<Rightarrow> BackendTargetsToKeys (IngressBackends ing))"

definition RouteBackends :: "kapi \<Rightarrow> uobject \<Rightarrow> BackendTarget list" where
  "RouteBackends K u = concat
     (map_objs (\<lambda>rm. List.map_filter (backend_target K u) (USlice K rm [''backendRefs'']))
       (USlice K u [''spec'', ''rules'']))"

definition RouteBackendKeys :: "kapi \<Rightarrow> anyobj \<Rightarrow> string list" where
  "RouteBackendKeys K obj = (case as_Unstructured obj of None \<Rightarrow> []
     | Some u \<Rightarrow> BackendTargetsToKeys (RouteBackends K u))"

definition TraefikBackendKeys :: "kapi \<Rightarrow> anyobj \<Rightarrow> string list" where
  "TraefikBackendKeys K obj = (case as_Unstructured obj of None \<Rightarrow> []
     | Some u \<Rightarrow> BackendTargetsToKeys (TraefikBackends K u))"

definition IsRouteGVR :: "gvr \<Rightarrow> bool" where
  "IsRouteGVR g \<longleftrightarrow> g_Resource g = ''httproutes'' \<or> g_Resource g = ''grpcroutes'' \<or>
     g_Resource g = ''tlsroutes'' \<or> g_Resource g = ''tcproutes''"

subsection \<open>Re-emitting the services\<close>

fun refresh_loop ::
  "(string \<Rightarrow> string \<Rightarrow> service option) \<Rightarrow> BackendTarget list option \<Rightarrow> BackendTarget list \<Rightarrow>
   collector \<Rightarrow> collector" where
  "refresh_loop get seen [] c = c"
| "refresh_loop get seen (t # ts) c =
     (if (case seen of None \<Rightarrow> False | Some s \<Rightarrow> t \<in> set s) then refresh_loop get seen ts c
      else refresh_loop get (map_option ((#) t) seen) ts
        (case get (bt_Namespace t) (bt_Name t) of None \<Rightarrow> c | Some svc \<Rightarrow> EmitService ''EXPOSURE'' svc c))"

definition RefreshBackendServices :: "refs \<Rightarrow> BackendTarget list \<Rightarrow> collector \<Rightarrow> collector" where
  "RefreshBackendServices R targets c =
     (case Services R of None \<Rightarrow> c
      | Some get \<Rightarrow> if targets = [] then c
          else refresh_loop get (if length targets > 1 then Some [] else None) targets c)"

subsection \<open>What they log\<close>

definition refresh_outs :: "refs \<Rightarrow> BackendTarget list \<Rightarrow> out list" where
  "refresh_outs R targets = (case Services R of None \<Rightarrow> []
     | Some get \<Rightarrow> concat (map (service_outs ''EXPOSURE'')
         (List.map_filter (\<lambda>t. get (bt_Namespace t) (bt_Name t)) (dedup_by (\<lambda>t. t) [] targets))))"

lemma refresh_loop_outs:
  "refresh_loop get (Some seen) ts c = log_outs (concat (map (service_outs ''EXPOSURE'')
     (List.map_filter (\<lambda>t. get (bt_Namespace t) (bt_Name t)) (dedup_by (\<lambda>t. t) seen ts)))) c"
  by (induction ts arbitrary: seen c) (auto simp: EmitService_outs split: option.split)

lemma RefreshBackendServices_outs:
  "RefreshBackendServices R targets c = log_outs (refresh_outs R targets) c"
proof (cases "length targets > 1")
  case True
  then show ?thesis
    by (auto simp: RefreshBackendServices_def refresh_outs_def refresh_loop_outs split: option.split)
next
  case False
  then consider "targets = []" | t where "targets = [t]" by (cases targets) auto
  then show ?thesis
    by cases (simp_all add: RefreshBackendServices_def refresh_outs_def EmitService_outs split: option.split)
qed

lemma refresh_outs_rec: "list_all is_rec (refresh_outs R targets)"
  by (auto simp: refresh_outs_def list_all_iff service_outs_def split: option.split)

lemma refresh_outs_Nil [simp]: "refresh_outs R [] = []"
  by (simp add: refresh_outs_def split: option.split)

text \<open>The event handlers main wires for ingresses, routes and Traefik routes.\<close>

definition on_ingress :: "refs \<Rightarrow> string \<Rightarrow> ingress \<Rightarrow> ingress option \<Rightarrow> collector \<Rightarrow> collector" where
  "on_ingress R event i old c = RefreshBackendServices R (IngressBackends i) (EmitIngress event i c)"

definition on_gateway :: "kapi \<Rightarrow> refs \<Rightarrow> gvr \<Rightarrow> string \<Rightarrow> uobject \<Rightarrow> uobject option \<Rightarrow> collector \<Rightarrow> collector" where
  "on_gateway K R g event u old c =
     (let c' = EmitGatewayAPI K event g u c
      in if IsRouteGVR g then RefreshBackendServices R (RouteBackends K u) c' else c')"

definition on_traefik :: "kapi \<Rightarrow> refs \<Rightarrow> gvr \<Rightarrow> string \<Rightarrow> uobject \<Rightarrow> uobject option \<Rightarrow> collector \<Rightarrow> collector" where
  "on_traefik K R g event u old c = RefreshBackendServices R (TraefikBackends K u) (EmitTraefik K event g u c)"

definition on_gateway_outs :: "kapi \<Rightarrow> refs \<Rightarrow> gvr \<Rightarrow> string \<Rightarrow> uobject \<Rightarrow> uobject option \<Rightarrow> out list" where
  "on_gateway_outs K R g event u old = gateway_api_outs K event g u @
     refresh_outs R (if IsRouteGVR g then RouteBackends K u else [])"

interpretation ingress_events: event_handler as_Ingress "on_ingress R" EmitIngressDelete
  "\<lambda>event i _. ingress_outs event i @ refresh_outs R (IngressBackends i)" ingress_delete_outs
  for R :: refs
  by unfold_locales
    (simp_all add: on_ingress_def ingress_ops_outs RefreshBackendServices_outs refresh_outs_rec log_outs_Cons
      ingress_outs_def ingress_delete_outs_def as_Ingress_def)

interpretation gateway_events: event_handler as_Unstructured "on_gateway K R g" "EmitGatewayAPIDelete K g"
  "on_gateway_outs K R g" "gateway_api_delete_outs K g"
  for K :: kapi and R :: refs and g :: gvr
  by unfold_locales
    (simp_all add: on_gateway_def on_gateway_outs_def Let_def EmitGatewayAPI_outs EmitGatewayAPIDelete_outs
      RefreshBackendServices_outs refresh_outs_rec gateway_api_outs_rec as_Unstructured_def)

interpretation traefik_events: event_handler as_Unstructured "on_traefik K R g" "EmitTraefikDelete K g"
  "\<lambda>event u _. traefik_outs K event g u @ refresh_outs R (TraefikBackends K u)" "traefik_delete_outs K g"
  for K :: kapi and R :: refs and g :: gvr
  by unfold_locales
    (simp_all add: on_traefik_def traefik_ops_outs RefreshBackendServices_outs refresh_outs_rec log_outs_Cons
      traefik_outs_def traefik_delete_outs_def as_Unstructured_def)

subsection \<open>Lookups by index\<close>

text \<open>
  What a cache index promises (\<^verbatim>\<open>cache.Indexer\<close>): the objects of the cache whose index
  function yields the key.
\<close>

locale indexer =
  fixes keys :: "anyobj \<Rightarrow> string list"
    and objs :: "anyobj list"
    and by_index :: "string \<Rightarrow> anyobj list"
  assumes index_law: "x \<in> set (by_index k) \<longleftrightarrow> x \<in> set objs \<and> k \<in> set (keys x)"
begin

lemma nonempty_iff: "by_index k \<noteq> [] \<longleftrightarrow> (\<exists>x\<in>set objs. k \<in> set (keys x))"
  using index_law [of _ k] by (metis ex_in_conv set_empty)

end

definition cache_index :: "(anyobj \<Rightarrow> string list) \<Rightarrow> anyobj list \<Rightarrow> string \<Rightarrow> anyobj list" where
  "cache_index keys objs k = filter (\<lambda>x. k \<in> set (keys x)) objs"

interpretation ingress_index: indexer IngressBackendKeys objs "cache_index IngressBackendKeys objs"
  for objs :: "anyobj list"
  by unfold_locales (auto simp: cache_index_def)

interpretation traefik_index: indexer "TraefikBackendKeys K" objs "cache_index (TraefikBackendKeys K) objs"
  for K :: kapi and objs :: "anyobj list"
  by unfold_locales (auto simp: cache_index_def)

text \<open>Only the informers of routes get the index; a lookup in another one fails and finds nothing.\<close>

definition gw_index_keys :: "kapi \<Rightarrow> gvr \<Rightarrow> anyobj \<Rightarrow> string list" where
  "gw_index_keys K g = (if IsRouteGVR g then RouteBackendKeys K else (\<lambda>_. []))"

interpretation gateway_index: indexer "gw_index_keys K g" objs "cache_index (gw_index_keys K g) objs"
  for K :: kapi and g :: gvr and objs :: "anyobj list"
  by unfold_locales (auto simp: cache_index_def)

text \<open>The caches behind the indexes: objects of the ingress informer and of each dynamic one.\<close>

definition indexes_caches ::
  "kapi \<Rightarrow> refs \<Rightarrow> anyobj list \<Rightarrow> (gvr \<times> anyobj list) list \<Rightarrow> anyobj list list \<Rightarrow> bool" where
  "indexes_caches K R ings gws trs \<longleftrightarrow>
     (\<exists>by_index. Ingresses R = Some by_index \<and> indexer IngressBackendKeys ings by_index) \<and>
     list_all2 (\<lambda>(s, by_index) (g, objs). indexer (gw_index_keys K g) objs by_index) (GWInformers R) gws \<and>
     list_all2 (\<lambda>(s, by_index) objs. indexer (TraefikBackendKeys K) objs by_index) (TRInformers R) trs"

definition slash_free_targets :: "BackendTarget list \<Rightarrow> bool" where
  "slash_free_targets ts \<longleftrightarrow> list_all (\<lambda>t. CHR ''/'' \<notin> set (bt_Namespace t)) ts"

definition slash_free_obj :: "kapi \<Rightarrow> anyobj \<Rightarrow> bool" where
  "slash_free_obj K x = (case x of
       OIngress i \<Rightarrow> slash_free_targets (IngressBackends i)
     | OUnstructured u \<Rightarrow> slash_free_targets (RouteBackends K u) \<and> slash_free_targets (TraefikBackends K u)
     | _ \<Rightarrow> True)"

definition ingress_refers :: "anyobj \<Rightarrow> BackendTarget \<Rightarrow> bool" where
  "ingress_refers x t = (case x of OIngress i \<Rightarrow> t \<in> set (IngressBackends i) | _ \<Rightarrow> False)"

definition route_refers :: "kapi \<Rightarrow> anyobj \<Rightarrow> BackendTarget \<Rightarrow> bool" where
  "route_refers K x t = (case x of OUnstructured u \<Rightarrow> t \<in> set (RouteBackends K u) | _ \<Rightarrow> False)"

definition traefik_refers :: "kapi \<Rightarrow> anyobj \<Rightarrow> BackendTarget \<Rightarrow> bool" where
  "traefik_refers K x t = (case x of OUnstructured u \<Rightarrow> t \<in> set (TraefikBackends K u) | _ \<Rightarrow> False)"

lemma set_BackendTargetsToKeys:
  "set (BackendTargetsToKeys ts) = (\<lambda>t. bt_Namespace t @ ''/'' @ bt_Name t) ` set ts"
  by (simp add: BackendTargetsToKeys_def)

lemma key_in_targets:
  assumes "CHR ''/'' \<notin> set ns" "slash_free_targets ts"
  shows "ns @ CHR ''/'' # nm \<in> set (BackendTargetsToKeys ts) \<longleftrightarrow> \<lparr>bt_Namespace = ns, bt_Name = nm\<rparr> \<in> set ts"
proof
  assume "ns @ CHR ''/'' # nm \<in> set (BackendTargetsToKeys ts)"
  then obtain t where t: "t \<in> set ts" "ns @ CHR ''/'' # nm = bt_Namespace t @ CHR ''/'' # bt_Name t"
    by (auto simp: set_BackendTargetsToKeys)
  then have "CHR ''/'' \<notin> set (bt_Namespace t)" using assms(2) by (auto simp: slash_free_targets_def list_all_iff)
  with t(2) assms(1) have "ns = bt_Namespace t" "nm = bt_Name t" by (auto dest: split_char_unique)
  with t(1) have "\<lparr>bt_Namespace = ns, bt_Name = nm\<rparr> = t" by simp
  with t(1) show "\<lparr>bt_Namespace = ns, bt_Name = nm\<rparr> \<in> set ts" by (simp only:)
qed (force simp: set_BackendTargetsToKeys)

lemma keys_refer:
  assumes "CHR ''/'' \<notin> set ns" "slash_free_obj K x"
  shows "ns @ CHR ''/'' # nm \<in> set (IngressBackendKeys x) \<longleftrightarrow> ingress_refers x \<lparr>bt_Namespace = ns, bt_Name = nm\<rparr>"
    and "ns @ CHR ''/'' # nm \<in> set (RouteBackendKeys K x) \<longleftrightarrow> route_refers K x \<lparr>bt_Namespace = ns, bt_Name = nm\<rparr>"
    and "ns @ CHR ''/'' # nm \<in> set (TraefikBackendKeys K x) \<longleftrightarrow> traefik_refers K x \<lparr>bt_Namespace = ns, bt_Name = nm\<rparr>"
  using assms by (auto simp: IngressBackendKeys_def RouteBackendKeys_def TraefikBackendKeys_def as_Ingress_def
      as_Unstructured_def ingress_refers_def route_refers_def traefik_refers_def slash_free_obj_def key_in_targets
      split: anyobj.splits)

lemma any_indexed_iff: "any_indexed infs key \<longleftrightarrow> (\<exists>(s, by_index)\<in>set infs. by_index key \<noteq> [])"
  by (induction infs) auto

lemma any_indexed_caches:
  assumes "list_all2 (\<lambda>(s, by_index) y. indexer (keys y) (objs y) by_index) infs ys"
  shows "any_indexed infs key \<longleftrightarrow> (\<exists>y\<in>set ys. \<exists>x\<in>set (objs y). key \<in> set (keys y x))"
  using assms by (induction rule: list_all2_induct) (auto simp: indexer.nonempty_iff)

text \<open>C16: a service counts as referenced exactly if an ingress in the cache, a route of the Gateway
  API or a Traefik route has it among its backends.\<close>

theorem service_referenced_iff:
  assumes "indexes_caches K R ings gws trs" and "CHR ''/'' \<notin> set ns"
    and "\<forall>x\<in>set (ings @ concat (map snd gws) @ concat trs). slash_free_obj K x"
    and "t = \<lparr>bt_Namespace = ns, bt_Name = nm\<rparr>"
  shows "ServiceReferenced R ns nm \<longleftrightarrow> (\<exists>x\<in>set ings. ingress_refers x t) \<or>
    (\<exists>(g, objs)\<in>set gws. IsRouteGVR g \<and> (\<exists>x\<in>set objs. route_refers K x t)) \<or>
    (\<exists>objs\<in>set trs. \<exists>x\<in>set objs. traefik_refers K x t)"
proof -
  let ?key = "ns @ CHR ''/'' # nm"
  from assms(1) obtain bi where bi: "Ingresses R = Some bi" "indexer IngressBackendKeys ings bi"
    and gw: "list_all2 (\<lambda>(s, by_index) y. indexer (gw_index_keys K (fst y)) (snd y) by_index) (GWInformers R) gws"
    and tr: "list_all2 (\<lambda>(s, by_index) objs. indexer (TraefikBackendKeys K) objs by_index) (TRInformers R) trs"
    by (auto simp: indexes_caches_def case_prod_unfold)
  note refer = keys_refer [OF assms(2), of K _ nm, folded assms(4)]
  have "ServiceReferenced R ns nm \<longleftrightarrow> bi ?key \<noteq> [] \<or> any_indexed (GWInformers R) ?key \<or> any_indexed (TRInformers R) ?key"
    by (simp add: ServiceReferenced_def Let_def bi(1))
  also have "bi ?key \<noteq> [] \<longleftrightarrow> (\<exists>x\<in>set ings. ingress_refers x t)"
    unfolding indexer.nonempty_iff [OF bi(2)] by (rule bex_cong [OF refl refer(1)]) (use assms(3) in simp)
  also have "any_indexed (GWInformers R) ?key \<longleftrightarrow>
      (\<exists>(g, objs)\<in>set gws. IsRouteGVR g \<and> (\<exists>x\<in>set objs. route_refers K x t))"
  proof -
    have "(\<exists>x\<in>set (snd y). ?key \<in> set (gw_index_keys K (fst y) x)) \<longleftrightarrow>
        IsRouteGVR (fst y) \<and> (\<exists>x\<in>set (snd y). route_refers K x t)" if "y \<in> set gws" for y
    proof -
      have "(\<exists>x\<in>set (snd y). ?key \<in> set (RouteBackendKeys K x)) \<longleftrightarrow> (\<exists>x\<in>set (snd y). route_refers K x t)"
        by (rule bex_cong [OF refl refer(2)]) (use that assms(3) in auto)
      then show ?thesis by (simp add: gw_index_keys_def)
    qed
    then show ?thesis unfolding any_indexed_caches [OF gw] by (simp add: case_prod_unfold)
  qed
  also have "any_indexed (TRInformers R) ?key \<longleftrightarrow> (\<exists>objs\<in>set trs. \<exists>x\<in>set objs. traefik_refers K x t)"
    unfolding any_indexed_caches [OF tr]
    by (rule bex_cong [OF refl], rule bex_cong [OF refl refer(3)]) (use assms(3) in auto)
  finally show ?thesis .
qed

definition ingress_example :: ingress where
  "ingress_example = \<lparr>i_Meta = \<lparr>m_Name = ''shop'', m_Namespace = ''web'', m_UID = ''u7'', m_Labels = None,
      m_Annotations = Some ''x'', m_ManagedFields = None, m_Finalizers = None, m_OwnerReferences = []\<rparr>,
    i_IngressClassName = None,
    i_DefaultBackend = Some \<lparr>bk_Service = Some \<lparr>ib_Name = ''front'', ib_PortName = [], ib_PortNumber = 80\<rparr>,
      bk_Resource = None\<rparr>,
    i_Rules = [\<lparr>ru_Host = ''shop.no'', ru_HTTP = Some [\<lparr>hp_Path = ''/api'', hp_PathType = None,
      hp_Backend = \<lparr>bk_Service = Some \<lparr>ib_Name = ''api'', ib_PortName = ''http'', ib_PortNumber = 0\<rparr>,
        bk_Resource = None\<rparr>\<rparr>]\<rparr>],
    i_TLS = [], i_LoadBalancer = []\<rparr>"

lemma ingress_example_backends: "IngressBackends ingress_example =
    [\<lparr>bt_Namespace = ''web'', bt_Name = ''front''\<rparr>, \<lparr>bt_Namespace = ''web'', bt_Name = ''api''\<rparr>]"
  by (simp add: IngressBackends_def ingress_example_def add_backend_def)

theorem service_referenced_iff_witness:
  "ServiceReferenced \<lparr>Services = None,
      Ingresses = Some (cache_index IngressBackendKeys [OIngress ingress_example]),
      GWInformers = [], TRInformers = []\<rparr> ''web'' ''api''"
proof -
  let ?R = "\<lparr>Services = None, Ingresses = Some (cache_index IngressBackendKeys [OIngress ingress_example]),
      GWInformers = [], TRInformers = []\<rparr>"
  have "indexes_caches ref_kapi ?R [OIngress ingress_example] [] []"
    by (simp add: indexes_caches_def ingress_index.indexer_axioms)
  moreover have "CHR ''/'' \<notin> set ''web''" by simp
  moreover have "\<forall>x\<in>set ([OIngress ingress_example] @ concat (map snd []) @ concat []). slash_free_obj ref_kapi x"
    by (simp add: slash_free_obj_def slash_free_targets_def ingress_example_backends)
  ultimately have "ServiceReferenced ?R ''web'' ''api'' \<longleftrightarrow>
      (\<exists>x\<in>set [OIngress ingress_example]. ingress_refers x \<lparr>bt_Namespace = ''web'', bt_Name = ''api''\<rparr>) \<or>
      (\<exists>(g, objs)\<in>set []. IsRouteGVR g \<and> (\<exists>x\<in>set objs. route_refers ref_kapi x \<lparr>bt_Namespace = ''web'', bt_Name = ''api''\<rparr>)) \<or>
      (\<exists>objs\<in>set []. \<exists>x\<in>set objs. traefik_refers ref_kapi x \<lparr>bt_Namespace = ''web'', bt_Name = ''api''\<rparr>)"
    by (rule service_referenced_iff [OF _ _ _ refl])
  then show ?thesis by (simp add: ingress_refers_def ingress_example_backends)
qed

subsection \<open>The exposure records of an event\<close>

definition lookup_service :: "refs \<Rightarrow> BackendTarget \<Rightarrow> service option" where
  "lookup_service R t = (case Services R of None \<Rightarrow> None | Some get \<Rightarrow> get (bt_Namespace t) (bt_Name t))"

lemma refresh_outs_eq: "refresh_outs R targets =
    map (\<lambda>s. ORec ''EXPOSURE'' ''Service'' (service_attrs s))
      (List.map_filter (lookup_service R) (dedup_by (\<lambda>t. t) [] targets))"
proof (cases "Services R")
  case None
  then have "lookup_service R t = None" for t by (simp add: lookup_service_def)
  with None show ?thesis by (simp add: refresh_outs_def map_filter_all_None)
next
  case (Some get)
  then have "lookup_service R = (\<lambda>t. get (bt_Namespace t) (bt_Name t))" by (simp add: lookup_service_def fun_eq_iff)
  with Some show ?thesis by (simp add: refresh_outs_def service_outs_def [abs_def] concat_map_singleton)
qed

text \<open>C17: after the sync, a change of an ingress logs the ingress and then one exposure record for each
  service it routes to (default backend and paths), each service once however often it is named, in
  the order of first mention, leaving out those that do not exist.\<close>

theorem ingress_event_exposes:
  "OnEvents as_Ingress (on_ingress R) EmitIngressDelete True (NUpdate old (OIngress i)) c =
     log_outs (ORec ''UPDATE'' ''Ingress'' (ingress_attrs i) #
       map (\<lambda>s. ORec ''EXPOSURE'' ''Service'' (service_attrs s))
         (List.map_filter (lookup_service R) (dedup_by (\<lambda>t. t) [] (IngressBackends i)))) c"
  unfolding ingress_events.OnEvents_outs ingress_events.handler_outs_def
  by (simp add: as_Ingress_def ingress_outs_def refresh_outs_eq)

text \<open>
  The default backend gets its exposure record, but it is nowhere in the record of the ingress
  itself: two ingresses that differ in it alone log the same line.
\<close>

lemma default_backend_not_in_record: "ingress_attrs (i\<lparr>i_DefaultBackend := b\<rparr>) = ingress_attrs i"
  by (simp add: ingress_attrs_def)

end
