(* ===== verification/Trim.thy ===== *)
theory Trim
  imports Pod Endpoint_Slice Refs
begin

section \<open>Cache transforms: transform.go\<close>

text \<open>
  A transform runs on every object before it enters the informer cache and drops what the program
  never reads.  It mutates the object in place and returns it; the model returns the new value.
  The claim of the code, that nothing that is dropped is ever read, is the theorem that each
  emission function cannot tell a trimmed object from the original.
\<close>

definition clear_meta :: "object_meta \<Rightarrow> object_meta" where
  "clear_meta m = m\<lparr>m_Annotations := None, m_ManagedFields := None, m_Finalizers := None\<rparr>"

definition stripContainer :: "container \<Rightarrow> container" where
  "stripContainer c = c\<lparr>c_Command := None, c_Args := None, c_Env := None, c_EnvFrom := None,
     c_VolumeMounts := None, c_VolumeDevices := None, c_Resources := None, c_LivenessProbe := None,
     c_ReadinessProbe := None, c_StartupProbe := None, c_Lifecycle := None, c_SecurityContext := None,
     c_Ports := None\<rparr>"

definition stripEphemeral :: "ephemeral_common \<Rightarrow> ephemeral_common" where
  "stripEphemeral c = c\<lparr>e_Command := None, e_Args := None, e_Env := None, e_EnvFrom := None,
     e_VolumeMounts := None, e_VolumeDevices := None, e_Resources := None, e_LivenessProbe := None,
     e_ReadinessProbe := None, e_StartupProbe := None, e_Lifecycle := None, e_SecurityContext := None,
     e_Ports := None\<rparr>"

definition strip_status :: "container_status \<Rightarrow> container_status" where
  "strip_status s = s\<lparr>cs_LastTerminationState := None\<rparr>"

definition trim_pod :: "pod \<Rightarrow> pod" where
  "trim_pod p = p\<lparr>
     p_Meta := clear_meta (p_Meta p),
     p_Spec := (p_Spec p)\<lparr>ps_Volumes := None, ps_NodeSelector := None, ps_Tolerations := None,
       ps_Affinity := None, ps_TopologySpreadConstraints := None, ps_SchedulingGates := None,
       ps_ReadinessGates := None, ps_ImagePullSecrets := None, ps_HostAliases := None,
       ps_InitContainers := map stripContainer (ps_InitContainers (p_Spec p)),
       ps_Containers := map stripContainer (ps_Containers (p_Spec p)),
       ps_EphemeralContainers := map stripEphemeral (ps_EphemeralContainers (p_Spec p))\<rparr>,
     p_Status := (p_Status p)\<lparr>pt_Conditions := None, pt_PodIPs := None,
       pt_ContainerStatuses := map strip_status (pt_ContainerStatuses (p_Status p)),
       pt_InitContainerStatuses := map strip_status (pt_InitContainerStatuses (p_Status p)),
       pt_EphemeralContainerStatuses := map strip_status (pt_EphemeralContainerStatuses (p_Status p))\<rparr>\<rparr>"

definition TrimPod :: "anyobj \<Rightarrow> anyobj" where
  "TrimPod obj = (case as_Pod obj of None \<Rightarrow> obj | Some p \<Rightarrow> OPod (trim_pod p))"

definition trim_service :: "service \<Rightarrow> service" where
  "trim_service s = s\<lparr>s_Meta := clear_meta (s_Meta s), s_Conditions := None\<rparr>"

definition TrimService :: "anyobj \<Rightarrow> anyobj" where
  "TrimService obj = (case as_Service obj of None \<Rightarrow> obj | Some s \<Rightarrow> OService (trim_service s))"

definition trim_ingress :: "ingress \<Rightarrow> ingress" where
  "trim_ingress i = i\<lparr>i_Meta := clear_meta (i_Meta i)\<rparr>"

definition TrimIngress :: "anyobj \<Rightarrow> anyobj" where
  "TrimIngress obj = (case as_Ingress obj of None \<Rightarrow> obj | Some i \<Rightarrow> OIngress (trim_ingress i))"

definition trim_replica_set :: "replica_set \<Rightarrow> replica_set" where
  "trim_replica_set rs = rs\<lparr>rs_Meta := (clear_meta (rs_Meta rs))\<lparr>m_Labels := None\<rparr>,
     rs_Spec := None, rs_Status := None\<rparr>"

definition TrimReplicaSet :: "anyobj \<Rightarrow> anyobj" where
  "TrimReplicaSet obj = (case as_ReplicaSet obj of None \<Rightarrow> obj | Some rs \<Rightarrow> OReplicaSet (trim_replica_set rs))"

definition trim_endpoint_slice :: "endpoint_slice \<Rightarrow> endpoint_slice" where
  "trim_endpoint_slice es = es\<lparr>es_Meta := clear_meta (es_Meta es)\<rparr>"

definition TrimEndpointSlice :: "anyobj \<Rightarrow> anyobj" where
  "TrimEndpointSlice obj = (case as_EndpointSlice obj of None \<Rightarrow> obj
     | Some es \<Rightarrow> OEndpointSlice (trim_endpoint_slice es))"

definition clear_unstructured :: "kapi \<Rightarrow> uobject \<Rightarrow> uobject" where
  "clear_unstructured K u = ClearFinalizers K (ClearManagedFields K (ClearAnnotations K u))"

text \<open>\<open>TrimMeta\<close> works on whatever has object metadata; a tombstone and a foreign value have none.\<close>

definition TrimMeta :: "kapi \<Rightarrow> anyobj \<Rightarrow> anyobj" where
  "TrimMeta K obj = (case obj of
       OPod p \<Rightarrow> OPod (p\<lparr>p_Meta := clear_meta (p_Meta p)\<rparr>)
     | OReplicaSet rs \<Rightarrow> OReplicaSet (rs\<lparr>rs_Meta := clear_meta (rs_Meta rs)\<rparr>)
     | OService s \<Rightarrow> OService (s\<lparr>s_Meta := clear_meta (s_Meta s)\<rparr>)
     | OIngress i \<Rightarrow> OIngress (i\<lparr>i_Meta := clear_meta (i_Meta i)\<rparr>)
     | OIngressClass ic \<Rightarrow> OIngressClass (ic\<lparr>ic_Meta := clear_meta (ic_Meta ic)\<rparr>)
     | OEndpointSlice es \<Rightarrow> OEndpointSlice (es\<lparr>es_Meta := clear_meta (es_Meta es)\<rparr>)
     | OUnstructured u \<Rightarrow> OUnstructured (clear_unstructured K u)
     | OTombstone key x \<Rightarrow> obj
     | OOther s \<Rightarrow> obj)"

definition trim_unstructured :: "kapi \<Rightarrow> uobject \<Rightarrow> uobject" where
  "trim_unstructured K u =
     (let u = clear_unstructured K u;
          u = RemoveNestedField K u [''status'', ''conditions''];
          u = RemoveNestedField K u [''status'', ''listeners'']
      in RemoveNestedField K u [''status'', ''parents''])"

definition TrimUnstructured :: "kapi \<Rightarrow> anyobj \<Rightarrow> anyobj" where
  "TrimUnstructured K obj = (case as_Unstructured obj of None \<Rightarrow> obj
     | Some u \<Rightarrow> OUnstructured (trim_unstructured K u))"

subsection \<open>What is left of the metadata\<close>

lemma clear_meta_simps [simp, trim_simps]:
  "m_Name (clear_meta m) = m_Name m" "m_Namespace (clear_meta m) = m_Namespace m"
  "m_UID (clear_meta m) = m_UID m" "m_Labels (clear_meta m) = m_Labels m"
  "m_OwnerReferences (clear_meta m) = m_OwnerReferences m" "clear_meta (clear_meta m) = clear_meta m"
  by (simp_all add: clear_meta_def)

lemma strip_simps [simp, trim_simps]:
  "c_Name (stripContainer c) = c_Name c" "c_Image (stripContainer c) = c_Image c"
  "e_Name (stripEphemeral e) = e_Name e" "e_Image (stripEphemeral e) = e_Image e"
  "cs_Name (strip_status s) = cs_Name s" "cs_ImageID (strip_status s) = cs_ImageID s"
  by (simp_all add: stripContainer_def stripEphemeral_def strip_status_def)

lemma statusImageID_strip [simp]: "statusImageID (map strip_status ss) n = statusImageID ss n"
  by (induction ss) auto

lemma imageIDs_match_strip [simp]:
  "imageIDs_match (map strip_status a) (map strip_status b) = imageIDs_match a b"
  by (induction a) auto

lemma sameImageIDs_strip [simp]: "sameImageIDs (map strip_status a) (map strip_status b) = sameImageIDs a b"
  by (simp add: sameImageIDs_def)

lemma collectContainers_trim [simp]: "collectContainers (trim_pod p) = collectContainers p"
  by (simp add: collectContainers_def trim_pod_def)

lemma trim_pod_simps [simp, trim_simps]:
  "p_Meta (trim_pod p) = clear_meta (p_Meta p)" "pt_Phase (p_Status (trim_pod p)) = pt_Phase (p_Status p)"
  by (simp_all add: trim_pod_def)

lemma PodOwner_trim [simp]: "PodOwner rsl (trim_pod p) = PodOwner rsl p"
  unfolding PodOwner_def by (simp only: trim_pod_simps clear_meta_simps)

lemma indices_differ_iff:
  fixes f g :: "'a \<Rightarrow> string"
  shows "length xs = length ys \<Longrightarrow> list_ex (\<lambda>i. f (xs ! i) \<noteq> f (ys ! i) \<or> g (xs ! i) \<noteq> g (ys ! i)) [0..<length ys] \<longleftrightarrow>
     map f xs \<noteq> map f ys \<or> map g xs \<noteq> map g ys"
proof -
  assume len: "length xs = length ys"
  have eq: "map h xs = map h ys \<longleftrightarrow> (\<forall>i<length ys. h (xs ! i) = h (ys ! i))" for h :: "'a \<Rightarrow> string"
    using len by (simp add: list_eq_iff_nth_eq)
  show ?thesis unfolding eq by (auto simp: list_ex_iff)
qed

lemma if_then_False: "(if P then False else Q) \<longleftrightarrow> \<not> P \<and> Q"
  by simp

lemma SamePodImages_iff: "SamePodImages a b \<longleftrightarrow> pt_Phase (p_Status a) = pt_Phase (p_Status b) \<and>
    map c_Name (ps_InitContainers (p_Spec a)) = map c_Name (ps_InitContainers (p_Spec b)) \<and>
    map c_Image (ps_InitContainers (p_Spec a)) = map c_Image (ps_InitContainers (p_Spec b)) \<and>
    map c_Name (ps_Containers (p_Spec a)) = map c_Name (ps_Containers (p_Spec b)) \<and>
    map c_Image (ps_Containers (p_Spec a)) = map c_Image (ps_Containers (p_Spec b)) \<and>
    map e_Name (ps_EphemeralContainers (p_Spec a)) = map e_Name (ps_EphemeralContainers (p_Spec b)) \<and>
    map e_Image (ps_EphemeralContainers (p_Spec a)) = map e_Image (ps_EphemeralContainers (p_Spec b)) \<and>
    sameImageIDs (pt_InitContainerStatuses (p_Status a)) (pt_InitContainerStatuses (p_Status b)) \<and>
    sameImageIDs (pt_ContainerStatuses (p_Status a)) (pt_ContainerStatuses (p_Status b)) \<and>
    sameImageIDs (pt_EphemeralContainerStatuses (p_Status a)) (pt_EphemeralContainerStatuses (p_Status b))"
proof (cases "length (ps_InitContainers (p_Spec a)) = length (ps_InitContainers (p_Spec b)) \<and>
    length (ps_Containers (p_Spec a)) = length (ps_Containers (p_Spec b)) \<and>
    length (ps_EphemeralContainers (p_Spec a)) = length (ps_EphemeralContainers (p_Spec b))")
  case True
  then show ?thesis
    by (simp only: SamePodImages_def Let_def indices_differ_iff simp_thms if_then_False) blast
next
  case False
  then show ?thesis by (auto simp: SamePodImages_def Let_def dest: map_eq_imp_length_eq)
qed

lemma SamePodImages_trim [simp]: "SamePodImages (trim_pod a) (trim_pod b) = SamePodImages a b"
  by (simp add: SamePodImages_iff) (simp add: trim_pod_def comp_def)

lemma container_attrs_trim [simp]: "container_attrs rsl (trim_pod p) c = container_attrs rsl p c"
  by (simp add: container_attrs_def)

lemma pod_outs_trim [simp]: "pod_outs rsl event (trim_pod p) (map_option trim_pod old) = pod_outs rsl event p old"
  by (cases old) (simp_all add: pod_outs_def prev_of_def container_rec_def [abs_def])

lemma pod_delete_outs_trim [simp]: "pod_delete_outs rsl (trim_pod p) = pod_delete_outs rsl p"
  by (simp add: pod_delete_outs_def)

lemma trim_ingress_simps [trim_simps]:
  "i_Meta (trim_ingress i) = clear_meta (i_Meta i)" "i_DefaultBackend (trim_ingress i) = i_DefaultBackend i"
  "i_Rules (trim_ingress i) = i_Rules i"
  by (simp_all add: trim_ingress_def)

lemma IngressBackends_trim [simp]: "IngressBackends (trim_ingress i) = IngressBackends i"
  unfolding IngressBackends_def add_backend_def trim_simps ..

lemma trim_typed_attrs [simp]:
  "service_attrs (trim_service s) = service_attrs s" "service_delete_outs (trim_service s) = service_delete_outs s"
  "ingress_attrs (trim_ingress i) = ingress_attrs i" "ingress_delete_outs (trim_ingress i) = ingress_delete_outs i"
  "endpoint_slice_attrs (trim_endpoint_slice es) = endpoint_slice_attrs es"
  "endpoint_slice_delete_outs (trim_endpoint_slice es) = endpoint_slice_delete_outs es"
  by (simp_all add: trim_service_def service_attrs_def service_delete_outs_def trim_ingress_def ingress_attrs_def
      ingress_delete_outs_def trim_endpoint_slice_def endpoint_slice_attrs_def endpoint_slice_delete_outs_def)

lemma PodOwner_trim_lister:
  "PodOwner (map_option (\<lambda>get ns n. map_option trim_replica_set (get ns n)) rsl) p = PodOwner rsl p"
  by (cases rsl) (auto simp: PodOwner_def Let_def trim_replica_set_def split: option.split)

text \<open>The emissions see a pod and the replica set lister through these functions only.\<close>

lemma pod_outs_owner_cong:
  "(\<And>p. PodOwner rsl p = PodOwner rsl' p) \<Longrightarrow> pod_outs rsl event p old = pod_outs rsl' event p old"
  "(\<And>p. PodOwner rsl p = PodOwner rsl' p) \<Longrightarrow> pod_delete_outs rsl p = pod_delete_outs rsl' p"
  by (simp_all add: pod_outs_def container_rec_def [abs_def] container_attrs_def pod_delete_outs_def)

subsection \<open>Trimmed objects emit the same records\<close>

text \<open>C18: the pod transform and the replica set transform are invisible to the pod component: the
  records of an addition, an update or a deletion, the number emitted and the order of a dump are the
  same for the trimmed objects as for the originals.\<close>

theorem trim_pod_invisible:
  defines "trimmed \<equiv> \<lambda>rsl. map_option (\<lambda>get ns n. map_option trim_replica_set (get ns n)) rsl"
  shows "EmitPod (trimmed rsl) event (trim_pod p) (map_option trim_pod old) c = EmitPod rsl event p old c \<and>
    EmitPodDelete (trimmed rsl) (trim_pod p) c = EmitPodDelete rsl p c \<and>
    lessPod (trimmed rsl) (trim_pod p) (trim_pod q) = lessPod rsl p q"
proof -
  have own: "PodOwner (trimmed rsl) p = PodOwner rsl p" for p
    unfolding trimmed_def by (rule PodOwner_trim_lister)
  show ?thesis
    by (simp add: EmitPod_outs EmitPodDelete_outs pod_outs_owner_cong [OF own] own lessPod_def)
qed

text \<open>C19: likewise the transforms of services, ingresses, ingress classes and endpoint slices are
  invisible to their emissions, and that of ingresses to the backends whose services are re-emitted.\<close>

theorem trim_typed_invisible:
  "TrimService (OService s) = OService (trim_service s) \<and>
   TrimIngress (OIngress i) = OIngress (trim_ingress i) \<and>
   TrimEndpointSlice (OEndpointSlice es) = OEndpointSlice (trim_endpoint_slice es) \<and>
   EmitService event (trim_service s) c = EmitService event s c \<and>
   EmitServiceDelete (trim_service s) c = EmitServiceDelete s c \<and>
   on_ingress R event (trim_ingress i) old c = on_ingress R event i old c \<and>
   EmitIngressDelete (trim_ingress i) c = EmitIngressDelete i c \<and>
   IngressBackendKeys (TrimIngress x) = IngressBackendKeys x \<and>
   EmitEndpointSlice event (trim_endpoint_slice es) c = EmitEndpointSlice event es c \<and>
   EmitEndpointSliceDelete (trim_endpoint_slice es) c = EmitEndpointSliceDelete es c \<and>
   (case TrimMeta K (OIngressClass ic) of
      OIngressClass ic' \<Rightarrow> EmitIngressClass event ic' c = EmitIngressClass event ic c \<and>
        EmitIngressClassDelete ic' c = EmitIngressClassDelete ic c
    | _ \<Rightarrow> False)"
  by (simp add: EmitService_outs service_outs_def EmitServiceDelete_outs on_ingress_def ingress_ops_outs
      ingress_outs_def RefreshBackendServices_outs IngressBackendKeys_def TrimIngress_def as_Ingress_def
      endpoint_slice_ops_outs endpoint_slice_outs_def ingress_class_outs_def
      ingress_class_delete_outs_def TrimService_def TrimEndpointSlice_def TrimMeta_def
      as_Service_def as_EndpointSlice_def split: anyobj.split)

context unstructured_api
begin

lemma clear_identity: "identity_agrees K (clear_unstructured K u) u"
  unfolding clear_unstructured_def
  by (blast intro: identity_trans clear_annotations_identity clear_managed_identity clear_finalizers_identity)

lemma clear_reads: "q \<noteq> [] \<Longrightarrow> hd q \<noteq> ''metadata'' \<Longrightarrow> reads_agree K (clear_unstructured K u) u q"
  unfolding clear_unstructured_def
  by (blast intro: reads_trans clear_annotations clear_managed clear_finalizers)

lemma trim_identity: "identity_agrees K (trim_unstructured K u) u"
proof -
  have rm: "identity_agrees K (RemoveNestedField K v [''status'', f]) v" for v f
    by (rule remove_identity) simp_all
  show ?thesis
    unfolding trim_unstructured_def Let_def by (blast intro: identity_trans rm clear_identity)
qed

lemma trim_reads:
  assumes "q \<noteq> []" "hd q \<noteq> ''metadata''" "unrelated [''status'', ''conditions''] q"
    "unrelated [''status'', ''listeners''] q" "unrelated [''status'', ''parents''] q"
  shows "reads_agree K (trim_unstructured K u) u q"
  unfolding trim_unstructured_def Let_def
  by (rule reads_trans [OF remove_reads reads_trans [OF remove_reads reads_trans [OF remove_reads clear_reads]]])
    (fact assms)+

lemma trim_spec: "reads_agree K (trim_unstructured K u) u (''spec'' # q)"
  by (rule trim_reads) (simp_all add: unrelated_def)

lemma trim_addresses: "reads_agree K (trim_unstructured K u) u [''status'', ''addresses'']"
  by (rule trim_reads) (simp_all add: unrelated_def)

lemma trim_strings: "ustr_slice_json K (trim_unstructured K u) (''spec'' # q) = ustr_slice_json K u (''spec'' # q)"
proof -
  have "NestedStringSlice K (trim_unstructured K u) (''spec'' # q) = NestedStringSlice K u (''spec'' # q)"
    using trim_spec [of u q] by (simp add: reads_agree_def)
  then show ?thesis unfolding ustr_slice_json_def UStringSlice_def by (rule arg_cong)
qed

lemmas trim_values = reads_agreeD [OF trim_spec] reads_agreeD [OF trim_addresses] trim_strings

lemma trim_identity_values:
  "GetNamespace K (trim_unstructured K u) = GetNamespace K u" "GetName K (trim_unstructured K u) = GetName K u"
  "GetUID K (trim_unstructured K u) = GetUID K u" "GetLabels K (trim_unstructured K u) = GetLabels K u"
  using trim_identity [of u] by (simp_all add: identity_agrees_def)

lemma backend_target_trim: "backend_target K (trim_unstructured K u) = backend_target K u"
  unfolding backend_target_def trim_identity_values ..

lemmas trim_facts = trim_values trim_identity_values backend_target_trim

lemma trim_gateway: "gateway_api_outs K event g (trim_unstructured K u) = gateway_api_outs K event g u"
  by (simp add: gateway_api_outs_def gateway_attrs_def gateway_class_attrs_def route_attrs_def
      parseListeners_def parseAddresses_def parseParentRefs_def collectRouteBackends_def trim_facts)

lemma trim_traefik: "traefik_outs K event g (trim_unstructured K u) = traefik_outs K event g u"
  by (simp add: traefik_outs_def traefik_attrs_def ExtractTraefikHosts_def route_matches_def
      TraefikBackends_def trim_facts)

lemma trim_backends:
  "RouteBackends K (trim_unstructured K u) = RouteBackends K u"
  "TraefikBackends K (trim_unstructured K u) = TraefikBackends K u"
  by (simp_all add: RouteBackends_def TraefikBackends_def trim_facts)

lemma trim_deletes:
  "gateway_api_delete_outs K g (trim_unstructured K u) = gateway_api_delete_outs K g u"
  "traefik_delete_outs K g (trim_unstructured K u) = traefik_delete_outs K g u"
  by (simp_all add: gateway_api_delete_outs_def traefik_delete_outs_def trim_facts)

lemmas trim_outs = trim_gateway trim_traefik trim_backends trim_deletes trim_identity_values

end

text \<open>C20: the transform of the custom resources is invisible to the handlers of Gateway API and
  Traefik objects, deletions and re-emitted services included, and to the order of a dump, for every
  implementation of the accessors that keeps their documented laws.\<close>

theorem trim_unstructured_invisible:
  assumes "unstructured_api K"
  shows "on_gateway K R g event (trim_unstructured K u) old c = on_gateway K R g event u old c \<and>
    EmitGatewayAPIDelete K g (trim_unstructured K u) c = EmitGatewayAPIDelete K g u c \<and>
    on_traefik K R g event (trim_unstructured K u) old c = on_traefik K R g event u old c \<and>
    EmitTraefikDelete K g (trim_unstructured K u) c = EmitTraefikDelete K g u c \<and>
    LessUnstructured K (trim_unstructured K u) (trim_unstructured K v) = LessUnstructured K u v"
  using unstructured_api.trim_outs [OF assms]
  by (simp add: on_gateway_def on_traefik_def EmitGatewayAPI_outs EmitGatewayAPIDelete_outs traefik_ops_outs
      RefreshBackendServices_outs LessUnstructured_def Let_def)

theorem trim_unstructured_invisible_witness:
  "on_traefik ref_kapi \<lparr>Services = None, Ingresses = None, GWInformers = [], TRInformers = []\<rparr>
     \<lparr>g_Group = ''traefik.io'', g_Version = ''v1'', g_Resource = ''ingressroutes''\<rparr> ''ADD''
     (trim_unstructured ref_kapi ingress_route_example) None init_collector =
   on_traefik ref_kapi \<lparr>Services = None, Ingresses = None, GWInformers = [], TRInformers = []\<rparr>
     \<lparr>g_Group = ''traefik.io'', g_Version = ''v1'', g_Resource = ''ingressroutes''\<rparr> ''ADD''
     ingress_route_example None init_collector"
  using trim_unstructured_invisible [OF ref_api.unstructured_api_axioms] by blast

subsection \<open>Idempotence\<close>

lemma strip_twice:
  "stripContainer (stripContainer c) = stripContainer c" "stripEphemeral (stripEphemeral e) = stripEphemeral e"
  "strip_status (strip_status s) = strip_status s"
  by (simp_all add: stripContainer_def stripEphemeral_def strip_status_def)

text \<open>Trimming a typed object twice is trimming it once, so that it does not matter if the informer
  hands a cached object to the transform again.\<close>

theorem trim_idempotent:
  "TrimPod (TrimPod x) = TrimPod x \<and> TrimService (TrimService x) = TrimService x \<and>
   TrimIngress (TrimIngress x) = TrimIngress x \<and> TrimReplicaSet (TrimReplicaSet x) = TrimReplicaSet x \<and>
   TrimEndpointSlice (TrimEndpointSlice x) = TrimEndpointSlice x"
proof -
  have "trim_pod (trim_pod p) = trim_pod p" for p
    by (simp add: trim_pod_def clear_meta_def strip_twice comp_def)
  moreover have "trim_service (trim_service s) = trim_service s" for s by (simp add: trim_service_def)
  moreover have "trim_ingress (trim_ingress i) = trim_ingress i" for i by (simp add: trim_ingress_def)
  moreover have "trim_replica_set (trim_replica_set rs) = trim_replica_set rs" for rs
    by (simp add: trim_replica_set_def clear_meta_def)
  moreover have "trim_endpoint_slice (trim_endpoint_slice es) = trim_endpoint_slice es" for es
    by (simp add: trim_endpoint_slice_def)
  ultimately show ?thesis
    by (auto simp: TrimPod_def TrimService_def TrimIngress_def TrimReplicaSet_def TrimEndpointSlice_def cast_defs
        split: anyobj.splits)
qed

end
