(* ===== verification/Snapshot.thy ===== *)
theory Snapshot
  imports Trim
begin

unbundle bit_operations_syntax

section \<open>Full snapshots: snapshot.go, \<open>EmitContainerSnapshot\<close> of pod.go\<close>

text \<open>
  A snapshot writes every object of every cache as an INITIAL record and, per kind, a SNAPSHOT
  record with the list of keys, inside a SNAPSHOT_BEGIN/SNAPSHOT_END envelope with one id.
  \<open>SnapshotResources\<close> holds the informers; the model holds what they answer when the snapshot
  reads them: \<^const>\<open>None\<close> for a nil informer, else an error or the list of cached objects.
\<close>

record DynamicSnapshot =
  ds_GVR :: gvr
  ds_Inf :: "anyobj list"

record SnapshotResources =
  sr_Pods :: "(string + pod list) option"
  sr_Services :: "(string + service list) option"
  sr_EndpointSlices :: "(string + endpoint_slice list) option"
  sr_Ingresses :: "(string + ingress list) option"
  sr_IngressClasses :: "(string + ingress_class list) option"
  sr_GatewayAPI :: "DynamicSnapshot list"
  sr_Traefik :: "DynamicSnapshot list"

text \<open>\<open>gvr_string\<close> is the method \<^verbatim>\<open>String\<close> of the library's GVR type.\<close>

fun BuildDynamicSnapshots ::
  "(gvr \<Rightarrow> string) \<Rightarrow> gvr list \<Rightarrow> (string \<rightharpoonup> anyobj list) \<Rightarrow> DynamicSnapshot list" where
  "BuildDynamicSnapshots gvr_string [] infs = []"
| "BuildDynamicSnapshots gvr_string (g # gs) infs =
     (case infs (gvr_string g) of
        Some informer \<Rightarrow> \<lparr>ds_GVR = g, ds_Inf = informer\<rparr> # BuildDynamicSnapshots gvr_string gs infs
      | None \<Rightarrow> BuildDynamicSnapshots gvr_string gs infs)"

subsection \<open>Snapshot ids\<close>

definition put_uint64 :: "u64 \<Rightarrow> 8 word list" where
  "put_uint64 v = map (\<lambda>i. ucast (drop_bit (56 - 8 * i) v)) [0..<8]"

definition hex_digit :: "nat \<Rightarrow> char" where
  "hex_digit n = ''0123456789abcdef'' ! n"

definition hex_byte :: "8 word \<Rightarrow> string" where
  "hex_byte b = [hex_digit (unat (drop_bit 4 b)), hex_digit (unat (b AND 15))]"

definition hex_encode :: "8 word list \<Rightarrow> string" where
  "hex_encode bs = concat (map hex_byte bs)"

text \<open>\<open>now_ms\<close> is \<^verbatim>\<open>time.Now().UnixMilli()\<close>, \<open>rnd\<close> the eight bytes the random source wrote.\<close>

definition newSnapshotID :: "u64 \<Rightarrow> 8 word list \<Rightarrow> string" where
  "newSnapshotID now_ms rnd = hex_encode (put_uint64 now_ms @ rnd)"

subsection \<open>One kind\<close>

definition emitSnapshotKeys :: "string \<Rightarrow> string \<Rightarrow> string list \<Rightarrow> collector \<Rightarrow> collector" where
  "emitSnapshotKeys snapshotID targetKind keys c = log_event ''SNAPSHOT'' ''Snapshot''
     [(''snapshot_id'', AStr snapshotID), (''target_kind'', AStr targetKind),
      (''resource_keys'', str_list keys)] c"

definition uidKeys :: "('a \<Rightarrow> string) \<Rightarrow> 'a list \<Rightarrow> string list" where
  "uidKeys get_uid list = map get_uid list"

definition container_keys :: "pod list \<Rightarrow> string list" where
  "container_keys pods =
     concat (map (\<lambda>p. map (\<lambda>c. m_UID (p_Meta p) @ ''/'' @ cr_name c) (collectContainers p)) pods)"

definition EmitContainerSnapshot :: "rs_lister \<Rightarrow> string + pod list \<Rightarrow> string \<Rightarrow> collector \<Rightarrow> collector" where
  "EmitContainerSnapshot rsl informer snapshotID c =
     (case informer of
        Inl err \<Rightarrow> Log_at LError ''snapshot: list pods'' [(''err'', AStr err)] c
      | Inr pods \<Rightarrow>
          (let (pods, c) = DumpSorted ''Pod'' pods (lessPod rsl) (\<lambda>p. EmitPod rsl ''INITIAL'' p None) c
           in emitSnapshotKeys snapshotID ''Container'' (container_keys pods) c))"

definition EmitServiceSnapshot :: "string + service list \<Rightarrow> string \<Rightarrow> collector \<Rightarrow> collector" where
  "EmitServiceSnapshot informer snapshotID c =
     (case informer of
        Inl err \<Rightarrow> Log_at LError ''snapshot: list services'' [(''err'', AStr err)] c
      | Inr list \<Rightarrow>
          (let (list, c) = DumpSorted ''Service'' list
             (\<lambda>a b. nsNameLess (m_Namespace (s_Meta a)) (m_Name (s_Meta a)) (m_Namespace (s_Meta b)) (m_Name (s_Meta b)))
             (\<lambda>s c. (1, EmitService ''INITIAL'' s c)) c
           in emitSnapshotKeys snapshotID ''Service'' (uidKeys (\<lambda>s. m_UID (s_Meta s)) list) c))"

definition EmitEndpointSliceSnapshot :: "string + endpoint_slice list \<Rightarrow> string \<Rightarrow> collector \<Rightarrow> collector" where
  "EmitEndpointSliceSnapshot informer snapshotID c =
     (case informer of
        Inl err \<Rightarrow> Log_at LError ''snapshot: list endpointslices'' [(''err'', AStr err)] c
      | Inr list \<Rightarrow>
          (let (list, c) = DumpSorted ''EndpointSlice'' list
             (\<lambda>a b. nsNameLess (m_Namespace (es_Meta a)) (m_Name (es_Meta a)) (m_Namespace (es_Meta b)) (m_Name (es_Meta b)))
             (\<lambda>es c. (1, EmitEndpointSlice ''INITIAL'' es c)) c
           in emitSnapshotKeys snapshotID ''EndpointSlice'' (uidKeys (\<lambda>es. m_UID (es_Meta es)) list) c))"

definition EmitIngressSnapshot :: "string + ingress list \<Rightarrow> string \<Rightarrow> collector \<Rightarrow> collector" where
  "EmitIngressSnapshot informer snapshotID c =
     (case informer of
        Inl err \<Rightarrow> Log_at LError ''snapshot: list ingresses'' [(''err'', AStr err)] c
      | Inr list \<Rightarrow>
          (let (list, c) = DumpSorted ''Ingress'' list
             (\<lambda>a b. nsNameLess (m_Namespace (i_Meta a)) (m_Name (i_Meta a)) (m_Namespace (i_Meta b)) (m_Name (i_Meta b)))
             (\<lambda>i c. (1, EmitIngress ''INITIAL'' i c)) c
           in emitSnapshotKeys snapshotID ''Ingress'' (uidKeys (\<lambda>i. m_UID (i_Meta i)) list) c))"

definition EmitIngressClassSnapshot :: "string + ingress_class list \<Rightarrow> string \<Rightarrow> collector \<Rightarrow> collector" where
  "EmitIngressClassSnapshot informer snapshotID c =
     (case informer of
        Inl err \<Rightarrow> Log_at LError ''snapshot: list ingressclasses'' [(''err'', AStr err)] c
      | Inr list \<Rightarrow>
          (let (list, c) = DumpSorted ''IngressClass'' list (\<lambda>a b. m_Name (ic_Meta a) < m_Name (ic_Meta b))
             (\<lambda>ic c. (1, EmitIngressClass ''INITIAL'' ic c)) c
           in emitSnapshotKeys snapshotID ''IngressClass'' (uidKeys (\<lambda>ic. m_UID (ic_Meta ic)) list) c))"

definition EmitGatewayAPISnapshot :: "kapi \<Rightarrow> gvr \<Rightarrow> anyobj list \<Rightarrow> string \<Rightarrow> collector \<Rightarrow> collector" where
  "EmitGatewayAPISnapshot K g informer snapshotID c =
     (let kind = kindFromResource (g_Resource g);
          (list, c) = DumpSorted kind (UnstructuredList informer) (LessUnstructured K)
            (\<lambda>u c. (1, EmitGatewayAPI K ''INITIAL'' g u c)) c
      in emitSnapshotKeys snapshotID kind (uidKeys (GetUID K) list) c)"

definition EmitTraefikSnapshot :: "kapi \<Rightarrow> gvr \<Rightarrow> anyobj list \<Rightarrow> string \<Rightarrow> collector \<Rightarrow> collector" where
  "EmitTraefikSnapshot K g informer snapshotID c =
     (let kind = traefikKindFromResource (g_Resource g);
          (list, c) = DumpSorted kind (UnstructuredList informer) (LessUnstructured K)
            (\<lambda>u c. (1, EmitTraefik K ''INITIAL'' g u c)) c
      in emitSnapshotKeys snapshotID kind (uidKeys (GetUID K) list) c)"

subsection \<open>The whole snapshot\<close>

definition unless_nil :: "('a \<Rightarrow> string \<Rightarrow> collector \<Rightarrow> collector) \<Rightarrow> 'a option \<Rightarrow> string \<Rightarrow> collector \<Rightarrow> collector" where
  "unless_nil f informer snapshotID c = (case informer of None \<Rightarrow> c | Some i \<Rightarrow> f i snapshotID c)"

definition EmitFullSnapshot ::
  "kapi \<Rightarrow> rs_lister \<Rightarrow> SnapshotResources \<Rightarrow> string \<Rightarrow> u64 \<Rightarrow> 8 word list \<Rightarrow> collector \<Rightarrow> collector" where
  "EmitFullSnapshot K rsl rs snapshotType now_ms rnd c =
     (let sid = newSnapshotID now_ms rnd;
          c = log_event ''SNAPSHOT_BEGIN'' ''Snapshot''
            [(''snapshot_id'', AStr sid), (''snapshot_type'', AStr snapshotType)] c;
          c = unless_nil (EmitContainerSnapshot rsl) (sr_Pods rs) sid c;
          c = unless_nil EmitServiceSnapshot (sr_Services rs) sid c;
          c = unless_nil EmitEndpointSliceSnapshot (sr_EndpointSlices rs) sid c;
          c = unless_nil EmitIngressSnapshot (sr_Ingresses rs) sid c;
          c = unless_nil EmitIngressClassSnapshot (sr_IngressClasses rs) sid c;
          c = fold (\<lambda>ds. EmitGatewayAPISnapshot K (ds_GVR ds) (ds_Inf ds) sid) (sr_GatewayAPI rs) c;
          c = fold (\<lambda>ds. EmitTraefikSnapshot K (ds_GVR ds) (ds_Inf ds) sid) (sr_Traefik rs) c
      in log_event ''SNAPSHOT_END'' ''Snapshot'' [(''snapshot_id'', AStr sid)] c)"

subsection \<open>What a snapshot logs\<close>

definition begin_out :: "string \<Rightarrow> string \<Rightarrow> out" where
  "begin_out sid snapshotType = ORec ''SNAPSHOT_BEGIN'' ''Snapshot''
     [(''snapshot_id'', AStr sid), (''snapshot_type'', AStr snapshotType)]"

definition keys_out :: "string \<Rightarrow> string \<Rightarrow> string list \<Rightarrow> out" where
  "keys_out sid targetKind keys = ORec ''SNAPSHOT'' ''Snapshot''
     [(''snapshot_id'', AStr sid), (''target_kind'', AStr targetKind), (''resource_keys'', str_list keys)]"

definition end_out :: "string \<Rightarrow> out" where
  "end_out sid = ORec ''SNAPSHOT_END'' ''Snapshot'' [(''snapshot_id'', AStr sid)]"

text \<open>One kind: the dump of the sorted objects, then their keys.\<close>

definition kind_outs ::
  "string \<Rightarrow> string \<Rightarrow> string \<Rightarrow> ('a \<Rightarrow> out list) \<Rightarrow> ('a \<Rightarrow> nat) \<Rightarrow> ('a list \<Rightarrow> string list) \<Rightarrow> 'a list \<Rightarrow> out list" where
  "kind_outs sid dumpKind targetKind outs cnt keys sorted_items =
     dump_outs dumpKind outs cnt sorted_items @ [keys_out sid targetKind (keys sorted_items)]"

text \<open>The lines of one informer: an error line, or the kind.\<close>

definition listed_outs ::
  "string \<Rightarrow> ('a list \<Rightarrow> out list) \<Rightarrow> ('a \<Rightarrow> 'a \<Rightarrow> bool) \<Rightarrow> (string + 'a list) option \<Rightarrow> out list" where
  "listed_outs msg kind lt src = (case src of None \<Rightarrow> []
     | Some (Inl err) \<Rightarrow> [OLog LError msg [(''err'', AStr err)]]
     | Some (Inr list) \<Rightarrow> kind (sort_slice lt list))"

definition container_kind_outs :: "rs_lister \<Rightarrow> string \<Rightarrow> pod list \<Rightarrow> out list" where
  "container_kind_outs rsl sid = kind_outs sid ''Pod'' ''Container'' (\<lambda>p. pod_outs rsl ''INITIAL'' p None)
     (\<lambda>p. length (pod_outs rsl ''INITIAL'' p None)) container_keys"

definition service_kind_outs :: "string \<Rightarrow> service list \<Rightarrow> out list" where
  "service_kind_outs sid = kind_outs sid ''Service'' ''Service'' (service_outs ''INITIAL'') (\<lambda>_. 1)
     (uidKeys (\<lambda>s. m_UID (s_Meta s)))"

definition endpoint_slice_kind_outs :: "string \<Rightarrow> endpoint_slice list \<Rightarrow> out list" where
  "endpoint_slice_kind_outs sid = kind_outs sid ''EndpointSlice'' ''EndpointSlice'' (endpoint_slice_outs ''INITIAL'')
     (\<lambda>_. 1) (uidKeys (\<lambda>es. m_UID (es_Meta es)))"

definition ingress_kind_outs :: "string \<Rightarrow> ingress list \<Rightarrow> out list" where
  "ingress_kind_outs sid = kind_outs sid ''Ingress'' ''Ingress'' (ingress_outs ''INITIAL'') (\<lambda>_. 1)
     (uidKeys (\<lambda>i. m_UID (i_Meta i)))"

definition ingress_class_kind_outs :: "string \<Rightarrow> ingress_class list \<Rightarrow> out list" where
  "ingress_class_kind_outs sid = kind_outs sid ''IngressClass'' ''IngressClass'' (ingress_class_outs ''INITIAL'')
     (\<lambda>_. 1) (uidKeys (\<lambda>ic. m_UID (ic_Meta ic)))"

definition gateway_kind_outs :: "kapi \<Rightarrow> string \<Rightarrow> gvr \<Rightarrow> uobject list \<Rightarrow> out list" where
  "gateway_kind_outs K sid g = kind_outs sid (kindFromResource (g_Resource g)) (kindFromResource (g_Resource g))
     (gateway_api_outs K ''INITIAL'' g) (\<lambda>_. 1) (uidKeys (GetUID K))"

definition traefik_kind_outs :: "kapi \<Rightarrow> string \<Rightarrow> gvr \<Rightarrow> uobject list \<Rightarrow> out list" where
  "traefik_kind_outs K sid g = kind_outs sid (traefikKindFromResource (g_Resource g))
     (traefikKindFromResource (g_Resource g)) (traefik_outs K ''INITIAL'' g) (\<lambda>_. 1) (uidKeys (GetUID K))"

definition dynamic_outs :: "kapi \<Rightarrow> (gvr \<Rightarrow> uobject list \<Rightarrow> out list) \<Rightarrow> DynamicSnapshot list \<Rightarrow> out list" where
  "dynamic_outs K kind dss = concat (map (\<lambda>ds. kind (ds_GVR ds)
     (sort_slice (LessUnstructured K) (UnstructuredList (ds_Inf ds)))) dss)"

definition body_outs :: "kapi \<Rightarrow> rs_lister \<Rightarrow> SnapshotResources \<Rightarrow> string \<Rightarrow> out list" where
  "body_outs K rsl rs sid =
     listed_outs ''snapshot: list pods'' (container_kind_outs rsl sid) (lessPod rsl) (sr_Pods rs) @
     listed_outs ''snapshot: list services'' (service_kind_outs sid)
       (\<lambda>a b. nsNameLess (m_Namespace (s_Meta a)) (m_Name (s_Meta a)) (m_Namespace (s_Meta b)) (m_Name (s_Meta b)))
       (sr_Services rs) @
     listed_outs ''snapshot: list endpointslices'' (endpoint_slice_kind_outs sid)
       (\<lambda>a b. nsNameLess (m_Namespace (es_Meta a)) (m_Name (es_Meta a)) (m_Namespace (es_Meta b)) (m_Name (es_Meta b)))
       (sr_EndpointSlices rs) @
     listed_outs ''snapshot: list ingresses'' (ingress_kind_outs sid)
       (\<lambda>a b. nsNameLess (m_Namespace (i_Meta a)) (m_Name (i_Meta a)) (m_Namespace (i_Meta b)) (m_Name (i_Meta b)))
       (sr_Ingresses rs) @
     listed_outs ''snapshot: list ingressclasses'' (ingress_class_kind_outs sid)
       (\<lambda>a b. m_Name (ic_Meta a) < m_Name (ic_Meta b)) (sr_IngressClasses rs) @
     dynamic_outs K (gateway_kind_outs K sid) (sr_GatewayAPI rs) @
     dynamic_outs K (traefik_kind_outs K sid) (sr_Traefik rs)"

definition snapshot_outs :: "kapi \<Rightarrow> rs_lister \<Rightarrow> SnapshotResources \<Rightarrow> string \<Rightarrow> string \<Rightarrow> out list" where
  "snapshot_outs K rsl rs snapshotType sid =
     begin_out sid snapshotType # body_outs K rsl rs sid @ [end_out sid]"

lemma emitSnapshotKeys_outs: "emitSnapshotKeys sid k keys c = log_outs [keys_out sid k keys] c"
  by (simp add: emitSnapshotKeys_def keys_out_def log_outs_Cons)

lemma typed_snapshot_outs:
  "unless_nil (EmitContainerSnapshot rsl) p sid c = log_outs (listed_outs ''snapshot: list pods''
     (container_kind_outs rsl sid) (lessPod rsl) p) c"
  "unless_nil EmitServiceSnapshot s sid c = log_outs (listed_outs ''snapshot: list services'' (service_kind_outs sid)
     (\<lambda>a b. nsNameLess (m_Namespace (s_Meta a)) (m_Name (s_Meta a)) (m_Namespace (s_Meta b)) (m_Name (s_Meta b))) s) c"
  "unless_nil EmitEndpointSliceSnapshot es sid c = log_outs (listed_outs ''snapshot: list endpointslices''
     (endpoint_slice_kind_outs sid)
     (\<lambda>a b. nsNameLess (m_Namespace (es_Meta a)) (m_Name (es_Meta a)) (m_Namespace (es_Meta b)) (m_Name (es_Meta b))) es) c"
  "unless_nil EmitIngressSnapshot i sid c = log_outs (listed_outs ''snapshot: list ingresses'' (ingress_kind_outs sid)
     (\<lambda>a b. nsNameLess (m_Namespace (i_Meta a)) (m_Name (i_Meta a)) (m_Namespace (i_Meta b)) (m_Name (i_Meta b))) i) c"
  "unless_nil EmitIngressClassSnapshot ic sid c = log_outs (listed_outs ''snapshot: list ingressclasses''
     (ingress_class_kind_outs sid) (\<lambda>a b. m_Name (ic_Meta a) < m_Name (ic_Meta b)) ic) c"
proof -
  note defs = unless_nil_def listed_outs_def kind_outs_def emitSnapshotKeys_outs log_outs_Cons
  show "unless_nil (EmitContainerSnapshot rsl) p sid c = log_outs (listed_outs ''snapshot: list pods''
     (container_kind_outs rsl sid) (lessPod rsl) p) c"
    by (simp add: defs EmitContainerSnapshot_def container_kind_outs_def pod_initial.DumpSorted_outs
        del: One_nat_def split: option.split sum.split)
  show "unless_nil EmitServiceSnapshot s sid c = log_outs (listed_outs ''snapshot: list services'' (service_kind_outs sid)
     (\<lambda>a b. nsNameLess (m_Namespace (s_Meta a)) (m_Name (s_Meta a)) (m_Namespace (s_Meta b)) (m_Name (s_Meta b))) s) c"
    by (simp add: defs EmitServiceSnapshot_def service_kind_outs_def service_initial.DumpSorted_outs
        del: One_nat_def split: option.split sum.split)
  show "unless_nil EmitEndpointSliceSnapshot es sid c = log_outs (listed_outs ''snapshot: list endpointslices''
     (endpoint_slice_kind_outs sid)
     (\<lambda>a b. nsNameLess (m_Namespace (es_Meta a)) (m_Name (es_Meta a)) (m_Namespace (es_Meta b)) (m_Name (es_Meta b))) es) c"
    by (simp add: defs EmitEndpointSliceSnapshot_def endpoint_slice_kind_outs_def
        endpoint_slice_initial.DumpSorted_outs del: One_nat_def split: option.split sum.split)
  show "unless_nil EmitIngressSnapshot i sid c = log_outs (listed_outs ''snapshot: list ingresses'' (ingress_kind_outs sid)
     (\<lambda>a b. nsNameLess (m_Namespace (i_Meta a)) (m_Name (i_Meta a)) (m_Namespace (i_Meta b)) (m_Name (i_Meta b))) i) c"
    by (simp add: defs EmitIngressSnapshot_def ingress_kind_outs_def ingress_initial.DumpSorted_outs
        del: One_nat_def split: option.split sum.split)
  show "unless_nil EmitIngressClassSnapshot ic sid c = log_outs (listed_outs ''snapshot: list ingressclasses''
     (ingress_class_kind_outs sid) (\<lambda>a b. m_Name (ic_Meta a) < m_Name (ic_Meta b)) ic) c"
    by (simp add: defs EmitIngressClassSnapshot_def ingress_class_kind_outs_def
        ingress_class_initial.DumpSorted_outs del: One_nat_def split: option.split sum.split)
qed

lemma dynamic_snapshot_outs:
  "fold (\<lambda>ds. EmitGatewayAPISnapshot K (ds_GVR ds) (ds_Inf ds) sid) dss c =
     log_outs (dynamic_outs K (gateway_kind_outs K sid) dss) c"
  "fold (\<lambda>ds. EmitTraefikSnapshot K (ds_GVR ds) (ds_Inf ds) sid) dss c =
     log_outs (dynamic_outs K (traefik_kind_outs K sid) dss) c"
proof -
  have "EmitGatewayAPISnapshot K g objs sid c = log_outs (gateway_kind_outs K sid g
      (sort_slice (LessUnstructured K) (UnstructuredList objs))) c" for g objs c
    by (simp add: EmitGatewayAPISnapshot_def gateway_kind_outs_def kind_outs_def emitSnapshotKeys_outs
        gateway_initial.DumpSorted_outs Let_def del: One_nat_def)
  then show "fold (\<lambda>ds. EmitGatewayAPISnapshot K (ds_GVR ds) (ds_Inf ds) sid) dss c =
      log_outs (dynamic_outs K (gateway_kind_outs K sid) dss) c"
    by (induction dss arbitrary: c) (simp_all add: dynamic_outs_def)
  have "EmitTraefikSnapshot K g objs sid c = log_outs (traefik_kind_outs K sid g
      (sort_slice (LessUnstructured K) (UnstructuredList objs))) c" for g objs c
    by (simp add: EmitTraefikSnapshot_def traefik_kind_outs_def kind_outs_def emitSnapshotKeys_outs
        traefik_initial.DumpSorted_outs Let_def del: One_nat_def)
  then show "fold (\<lambda>ds. EmitTraefikSnapshot K (ds_GVR ds) (ds_Inf ds) sid) dss c =
      log_outs (dynamic_outs K (traefik_kind_outs K sid) dss) c"
    by (induction dss arbitrary: c) (simp_all add: dynamic_outs_def)
qed

lemma EmitFullSnapshot_outs: "EmitFullSnapshot K rsl rs snapshotType now_ms rnd c =
    log_outs (snapshot_outs K rsl rs snapshotType (newSnapshotID now_ms rnd)) c"
  by (simp add: EmitFullSnapshot_def Let_def typed_snapshot_outs dynamic_snapshot_outs snapshot_outs_def body_outs_def
      begin_out_def end_out_def log_outs_Cons)

subsection \<open>The key lists are right\<close>

text \<open>
  A consumer that audits a snapshot: it collects the identities of the INITIAL records and, at each
  SNAPSHOT record, checks that the key list is exactly what it has seen since the last one, under the
  right kind and snapshot id.  A container is identified by \<^verbatim>\<open>pod_uid/container\<close>,
  everything else by its uid.
\<close>

definition record_key :: "string \<Rightarrow> attr list \<Rightarrow> string option" where
  "record_key kind rest =
     (if kind = ''Container''
      then (case (map_of rest ''pod_uid'', map_of rest ''container'') of
              (Some (AStr u), Some (AStr n)) \<Rightarrow> Some (u @ ''/'' @ n) | _ \<Rightarrow> None)
      else (case map_of rest ''uid'' of Some (AStr u) \<Rightarrow> Some u | _ \<Rightarrow> None))"

definition lists_keys :: "string \<Rightarrow> (string \<times> string) list \<Rightarrow> attr list \<Rightarrow> bool" where
  "lists_keys sid acc rest = (map_of rest ''snapshot_id'' = Some (AStr sid) \<and>
     (case map_of rest ''target_kind'' of Some (AStr kind) \<Rightarrow>
        list_all (\<lambda>(k, key). k = kind) acc \<and> map_of rest ''resource_keys'' = Some (str_list (map snd acc))
      | _ \<Rightarrow> False))"

fun audit :: "string \<Rightarrow> (string \<times> string) list \<Rightarrow> out list \<Rightarrow> bool" where
  "audit sid acc [] \<longleftrightarrow> acc = []"
| "audit sid acc (OLog l msg attrs # os) \<longleftrightarrow> audit sid acc os"
| "audit sid acc (ORec event kind rest # os) \<longleftrightarrow>
     (if event = ''INITIAL'' then
        (case record_key kind rest of None \<Rightarrow> False | Some key \<Rightarrow> audit sid (acc @ [(kind, key)]) os)
      else event = ''SNAPSHOT'' \<and> lists_keys sid acc rest \<and> audit sid [] os)"

text \<open>What a kind has to show to pass: each object logs INITIAL records with the keys listed for it.\<close>

definition initial_keys :: "string \<Rightarrow> out list \<Rightarrow> string list \<Rightarrow> bool" where
  "initial_keys kind os ks \<longleftrightarrow> list_all2 (\<lambda>x k. case x of ORec event kind' rest \<Rightarrow>
       event = ''INITIAL'' \<and> kind' = kind \<and> record_key kind rest = Some k | OLog l msg attrs \<Rightarrow> False) os ks"

lemma audit_initials:
  assumes "initial_keys kind os ks"
  shows "audit sid acc (os @ rest) = audit sid (acc @ map (Pair kind) ks) rest"
  using assms unfolding initial_keys_def
proof (induction os ks arbitrary: acc rule: list_all2_induct)
  case (Cons x xs k ks)
  then show ?case by (cases x) simp_all
qed simp

lemma initial_keys_concat:
  "(\<And>x. x \<in> set xs \<Longrightarrow> initial_keys kind (outs x) (ks x)) \<Longrightarrow>
   initial_keys kind (concat (map outs xs)) (concat (map ks xs))"
  unfolding initial_keys_def by (induction xs) (auto intro: list_all2_appendI)

lemma lists_keys_out: "lists_keys sid (map (Pair kind) ks)
    [(''snapshot_id'', AStr sid), (''target_kind'', AStr kind), (''resource_keys'', str_list ks)]"
  by (simp add: lists_keys_def list_all_iff comp_def)

lemma audit_kind:
  assumes "\<And>x. x \<in> set xs \<Longrightarrow> initial_keys kind (outs x) (ks x)" "keys xs = concat (map ks xs)"
  shows "audit sid [] (kind_outs sid dumpKind kind outs cnt keys xs @ rest) = audit sid [] rest"
  using audit_initials [OF initial_keys_concat [OF assms(1)], of xs]
  by (simp add: kind_outs_def dump_outs_def keys_out_def assms(2) lists_keys_out)

lemma initial_keys_one:
  "kind \<noteq> ''Container'' \<Longrightarrow> map_of rest ''uid'' = Some (AStr u) \<Longrightarrow> initial_keys kind [ORec ''INITIAL'' kind rest] [u]"
  by (simp add: initial_keys_def record_key_def)

lemma audit_uid_kind:
  assumes "\<And>x. initial_keys kind (outs x) [uid x]"
  shows "audit sid [] (kind_outs sid dumpKind kind outs cnt (uidKeys uid) xs @ rest) = audit sid [] rest"
  by (rule audit_kind [of _ _ _ "\<lambda>x. [uid x]"]) (simp_all add: assms uidKeys_def concat_map_singleton)

lemma container_record_key:
  "record_key ''Container'' (container_attrs rsl p c) = Some (m_UID (p_Meta p) @ ''/'' @ cr_name c)"
  by (simp add: record_key_def container_attrs_def split: prod.split)

lemma initial_keys_pod:
  "initial_keys ''Container'' (pod_outs rsl ''INITIAL'' p None)
     (map (\<lambda>c. m_UID (p_Meta p) @ ''/'' @ cr_name c) (collectContainers p))"
  by (simp add: initial_keys_def pod_outs_initial list_all2_map1 list_all2_map2 list_all2_same
      container_rec_def container_record_key)

lemma kind_names:
  "wantResource r \<Longrightarrow> kindFromResource r \<noteq> ''Container''"
  "wantTraefikResource r \<Longrightarrow> traefikKindFromResource r \<noteq> ''Container''"
  by (auto simp: wantResource_iff gwAPIResources_def kindFromResource_def wantTraefikResource_def in_list_iff
      traefikResources_def traefikKindFromResource_def)

lemma initial_keys_typed:
  "initial_keys ''Service'' (service_outs ''INITIAL'' s) [m_UID (s_Meta s)]"
  "initial_keys ''EndpointSlice'' (endpoint_slice_outs ''INITIAL'' es) [m_UID (es_Meta es)]"
  "initial_keys ''Ingress'' (ingress_outs ''INITIAL'' i) [m_UID (i_Meta i)]"
  "initial_keys ''IngressClass'' (ingress_class_outs ''INITIAL'' ic) [m_UID (ic_Meta ic)]"
  by (simp_all add: service_outs_def service_attrs_def endpoint_slice_outs_def endpoint_slice_attrs_def
      ingress_outs_def ingress_attrs_def ingress_class_outs_def initial_keys_one split: prod.split)

lemma initial_keys_gateway:
  "wantResource (g_Resource g) \<Longrightarrow>
   initial_keys (kindFromResource (g_Resource g)) (gateway_api_outs K ''INITIAL'' g u) [GetUID K u]"
  by (simp add: gateway_api_outs_def kind_names initial_keys_one gateway_attrs_def gateway_class_attrs_def
      route_attrs_def)

lemma initial_keys_traefik:
  "wantTraefikResource (g_Resource g) \<Longrightarrow>
   initial_keys (traefikKindFromResource (g_Resource g)) (traefik_outs K ''INITIAL'' g u) [GetUID K u]"
  by (simp add: traefik_outs_def kind_names initial_keys_one traefik_attrs_def)

lemma audit_listed:
  assumes "\<And>xs rest. audit sid [] (kind xs @ rest) = audit sid [] rest"
  shows "audit sid [] (listed_outs msg kind lt src @ rest) = audit sid [] rest"
  using assms by (auto simp: listed_outs_def split: option.split sum.split)

lemma audit_dynamic:
  assumes "\<And>ds xs rest. ds \<in> set dss \<Longrightarrow> audit sid [] (kind (ds_GVR ds) xs @ rest) = audit sid [] rest"
  shows "audit sid [] (dynamic_outs K kind dss @ rest) = audit sid [] rest"
  using assms by (induction dss) (simp_all add: dynamic_outs_def)

lemma audit_kinds:
  "audit sid [] (container_kind_outs rsl sid ps @ rest) = audit sid [] rest"
  "audit sid [] (service_kind_outs sid ss @ rest) = audit sid [] rest"
  "audit sid [] (endpoint_slice_kind_outs sid es @ rest) = audit sid [] rest"
  "audit sid [] (ingress_kind_outs sid is @ rest) = audit sid [] rest"
  "audit sid [] (ingress_class_kind_outs sid ics @ rest) = audit sid [] rest"
  unfolding container_kind_outs_def service_kind_outs_def endpoint_slice_kind_outs_def ingress_kind_outs_def
    ingress_class_kind_outs_def
  by (rule audit_kind [OF initial_keys_pod], simp add: container_keys_def)
    (rule audit_uid_kind, rule initial_keys_typed)+

text \<open>Both discoveries return wanted resources only, so main builds well-formed snapshots.\<close>

definition wf_resources :: "SnapshotResources \<Rightarrow> bool" where
  "wf_resources rs \<longleftrightarrow> list_all (\<lambda>ds. wantResource (g_Resource (ds_GVR ds))) (sr_GatewayAPI rs) \<and>
     list_all (\<lambda>ds. wantTraefikResource (g_Resource (ds_GVR ds))) (sr_Traefik rs)"

lemma audit_body: "wf_resources rs \<Longrightarrow> audit sid [] (body_outs K rsl rs sid @ rest) = audit sid [] rest"
proof -
  assume wf: "wf_resources rs"
  have gw: "audit sid [] (gateway_kind_outs K sid (ds_GVR ds) xs @ rest) = audit sid [] rest"
    if "ds \<in> set (sr_GatewayAPI rs)" for ds xs rest
    unfolding gateway_kind_outs_def using that wf
    by (intro audit_uid_kind initial_keys_gateway) (auto simp: wf_resources_def list_all_iff)
  have tr: "audit sid [] (traefik_kind_outs K sid (ds_GVR ds) xs @ rest) = audit sid [] rest"
    if "ds \<in> set (sr_Traefik rs)" for ds xs rest
    unfolding traefik_kind_outs_def using that wf
    by (intro audit_uid_kind initial_keys_traefik) (auto simp: wf_resources_def list_all_iff)
  have "audit sid [] (dynamic_outs K (gateway_kind_outs K sid) (sr_GatewayAPI rs) @ rest) = audit sid [] rest" for rest
    by (rule audit_dynamic) (rule gw)
  moreover have "audit sid [] (dynamic_outs K (traefik_kind_outs K sid) (sr_Traefik rs) @ rest) = audit sid [] rest"
    by (rule audit_dynamic) (rule tr)
  ultimately show ?thesis
    by (simp add: body_outs_def audit_listed [OF audit_kinds(1)] audit_listed [OF audit_kinds(2)]
        audit_listed [OF audit_kinds(3)] audit_listed [OF audit_kinds(4)] audit_listed [OF audit_kinds(5)])
qed

text \<open>C4: a full snapshot is one envelope under one id: the first line opens it, the last closes it, and
  in between each SNAPSHOT record lists exactly the identities of the INITIAL records since the
  previous one, in order and under their kind, and no INITIAL record is left unlisted.\<close>

theorem snapshot_audited:
  assumes "wf_resources rs"
  shows "EmitFullSnapshot K rsl rs snapshotType now_ms rnd c =
      log_outs (begin_out (newSnapshotID now_ms rnd) snapshotType #
        body_outs K rsl rs (newSnapshotID now_ms rnd) @ [end_out (newSnapshotID now_ms rnd)]) c \<and>
    audit (newSnapshotID now_ms rnd) [] (body_outs K rsl rs (newSnapshotID now_ms rnd))"
  using audit_body [OF assms, of "newSnapshotID now_ms rnd" K rsl "[]"]
  by (simp add: EmitFullSnapshot_outs snapshot_outs_def)

definition resources_example :: SnapshotResources where
  "resources_example = \<lparr>sr_Pods = Some (Inr [pod_example ''Running'' ''a:1'']), sr_Services = Some (Inl ''timeout''),
     sr_EndpointSlices = None, sr_Ingresses = Some (Inr [ingress_example]), sr_IngressClasses = None,
     sr_GatewayAPI = [], sr_Traefik = [\<lparr>ds_GVR = \<lparr>g_Group = ''traefik.io'', g_Version = ''v1'',
       g_Resource = ''ingressroutes''\<rparr>, ds_Inf = [OUnstructured ingress_route_example]\<rparr>]\<rparr>"

lemma wf_resources_example: "wf_resources resources_example"
  by (simp add: wf_resources_def resources_example_def wantTraefikResource_def traefikResources_def)

theorem snapshot_audited_witness:
  "audit (newSnapshotID 1700000000000 [1, 2, 3, 4, 5, 6, 7, 8]) []
     (body_outs ref_kapi None resources_example (newSnapshotID 1700000000000 [1, 2, 3, 4, 5, 6, 7, 8]))"
  using snapshot_audited [OF wf_resources_example] by blast

subsection \<open>Which kinds a snapshot lists\<close>

definition listed_kind :: "string \<Rightarrow> (string + 'a list) option \<Rightarrow> string list" where
  "listed_kind kind src = (case src of Some (Inr list) \<Rightarrow> [kind] | _ \<Rightarrow> [])"

definition listed_kinds :: "SnapshotResources \<Rightarrow> string list" where
  "listed_kinds rs = listed_kind ''Container'' (sr_Pods rs) @ listed_kind ''Service'' (sr_Services rs) @
     listed_kind ''EndpointSlice'' (sr_EndpointSlices rs) @ listed_kind ''Ingress'' (sr_Ingresses rs) @
     listed_kind ''IngressClass'' (sr_IngressClasses rs) @
     map (\<lambda>ds. kindFromResource (g_Resource (ds_GVR ds))) (sr_GatewayAPI rs) @
     map (\<lambda>ds. traefikKindFromResource (g_Resource (ds_GVR ds))) (sr_Traefik rs)"

fun snapshot_kind :: "out \<Rightarrow> string option" where
  "snapshot_kind (ORec event kind rest) =
     (if event = ''SNAPSHOT'' then
        (case map_of rest ''target_kind'' of Some (AStr k) \<Rightarrow> Some k | _ \<Rightarrow> None) else None)"
| "snapshot_kind (OLog l msg attrs) = None"

lemma snapshot_kind_dump:
  assumes "\<And>x. x \<in> set xs \<Longrightarrow> list_all (\<lambda>e. snapshot_kind e = None) (outs x)"
  shows "List.map_filter snapshot_kind (kind_outs sid dumpKind kind outs cnt keys xs) = [kind]"
proof -
  have "List.map_filter snapshot_kind (concat (map outs xs)) = []"
    using assms by (intro map_filter_all_None) (auto simp: list_all_iff)
  then show ?thesis by (simp add: kind_outs_def dump_outs_def keys_out_def)
qed

lemma snapshot_kind_listed:
  "(\<And>xs. List.map_filter snapshot_kind (kouts xs) = [kind]) \<Longrightarrow>
   List.map_filter snapshot_kind (listed_outs msg kouts lt src) = listed_kind kind src"
  by (auto simp: listed_outs_def listed_kind_def split: option.split sum.split)

lemma snapshot_kind_dynamic:
  "(\<And>g xs. List.map_filter snapshot_kind (kouts g xs) = [kind (g_Resource g)]) \<Longrightarrow>
   List.map_filter snapshot_kind (dynamic_outs K kouts dss) = map (\<lambda>ds. kind (g_Resource (ds_GVR ds))) dss"
  by (induction dss) (simp_all add: dynamic_outs_def)

lemma snapshot_kind_kinds:
  "List.map_filter snapshot_kind (container_kind_outs rsl sid ps) = [''Container'']"
  "List.map_filter snapshot_kind (service_kind_outs sid ss) = [''Service'']"
  "List.map_filter snapshot_kind (endpoint_slice_kind_outs sid es) = [''EndpointSlice'']"
  "List.map_filter snapshot_kind (ingress_kind_outs sid is) = [''Ingress'']"
  "List.map_filter snapshot_kind (ingress_class_kind_outs sid ics) = [''IngressClass'']"
  "List.map_filter snapshot_kind (gateway_kind_outs K sid g us) = [kindFromResource (g_Resource g)]"
  "List.map_filter snapshot_kind (traefik_kind_outs K sid g us) = [traefikKindFromResource (g_Resource g)]"
  unfolding container_kind_outs_def service_kind_outs_def endpoint_slice_kind_outs_def ingress_kind_outs_def
    ingress_class_kind_outs_def gateway_kind_outs_def traefik_kind_outs_def
  by (rule snapshot_kind_dump; simp add: pod_outs_initial container_rec_def list_all_iff service_outs_def
      endpoint_slice_outs_def ingress_outs_def ingress_class_outs_def gateway_api_outs_def traefik_outs_def)+

text \<open>C11: a snapshot has one SNAPSHOT record for each cache that could be listed, in a fixed order, also
  for an empty one, and none for a cache that is missing or failed to list: a consumer never takes a
  failed list for an empty one and deletes what it knows.\<close>

theorem snapshot_lists_what_answered:
  "EmitFullSnapshot K rsl rs snapshotType now_ms rnd c =
     log_outs (snapshot_outs K rsl rs snapshotType (newSnapshotID now_ms rnd)) c \<and>
   List.map_filter snapshot_kind (snapshot_outs K rsl rs snapshotType (newSnapshotID now_ms rnd)) = listed_kinds rs"
  by (simp add: EmitFullSnapshot_outs snapshot_outs_def begin_out_def end_out_def body_outs_def listed_kinds_def
      snapshot_kind_listed [OF snapshot_kind_kinds(1)] snapshot_kind_listed [OF snapshot_kind_kinds(2)]
      snapshot_kind_listed [OF snapshot_kind_kinds(3)] snapshot_kind_listed [OF snapshot_kind_kinds(4)]
      snapshot_kind_listed [OF snapshot_kind_kinds(5)] snapshot_kind_dynamic snapshot_kind_kinds)

subsection \<open>The order of the caches does not matter\<close>

definition same_list :: "('a \<Rightarrow> 'a \<Rightarrow> bool) \<Rightarrow> (string + 'a list) option \<Rightarrow> (string + 'a list) option \<Rightarrow> bool" where
  "same_list lt a b = (case (a, b) of
       (Some (Inr xs), Some (Inr ys)) \<Rightarrow> mset xs = mset ys \<and> comparison.separated lt (set xs)
     | _ \<Rightarrow> a = b)"

definition same_dynamic :: "kapi \<Rightarrow> DynamicSnapshot \<Rightarrow> DynamicSnapshot \<Rightarrow> bool" where
  "same_dynamic K a b \<longleftrightarrow> ds_GVR a = ds_GVR b \<and>
     mset (UnstructuredList (ds_Inf a)) = mset (UnstructuredList (ds_Inf b)) \<and>
     comparison.separated (LessUnstructured K) (set (UnstructuredList (ds_Inf a)))"

definition same_caches :: "kapi \<Rightarrow> rs_lister \<Rightarrow> SnapshotResources \<Rightarrow> SnapshotResources \<Rightarrow> bool" where
  "same_caches K rsl a b \<longleftrightarrow> same_list (lessPod rsl) (sr_Pods a) (sr_Pods b) \<and>
     same_list (\<lambda>a b. nsNameLess (m_Namespace (s_Meta a)) (m_Name (s_Meta a)) (m_Namespace (s_Meta b)) (m_Name (s_Meta b)))
       (sr_Services a) (sr_Services b) \<and>
     same_list (\<lambda>a b. nsNameLess (m_Namespace (es_Meta a)) (m_Name (es_Meta a)) (m_Namespace (es_Meta b)) (m_Name (es_Meta b)))
       (sr_EndpointSlices a) (sr_EndpointSlices b) \<and>
     same_list (\<lambda>a b. nsNameLess (m_Namespace (i_Meta a)) (m_Name (i_Meta a)) (m_Namespace (i_Meta b)) (m_Name (i_Meta b)))
       (sr_Ingresses a) (sr_Ingresses b) \<and>
     same_list (\<lambda>a b. m_Name (ic_Meta a) < m_Name (ic_Meta b)) (sr_IngressClasses a) (sr_IngressClasses b) \<and>
     list_all2 (same_dynamic K) (sr_GatewayAPI a) (sr_GatewayAPI b) \<and>
     list_all2 (same_dynamic K) (sr_Traefik a) (sr_Traefik b)"

lemma listed_same:
  "comparison lt \<Longrightarrow> same_list lt a b \<Longrightarrow> listed_outs msg kind lt a = listed_outs msg kind lt b"
  by (auto simp: same_list_def listed_outs_def comparison.sort_slice_perm split: option.splits sum.splits)

lemma dynamic_same: "list_all2 (same_dynamic K) a b \<Longrightarrow> dynamic_outs K kind a = dynamic_outs K kind b"
  unfolding dynamic_outs_def
  by (induction rule: list_all2_induct)
    (simp_all add: same_dynamic_def unstructured_less.sort_slice_perm)

text \<open>C12: a snapshot depends on what the caches hold, not on the order they list it in: as long as the
  comparison tells the objects of a cache apart (as unique names do), two listings in different
  orders log the same lines, so repeated snapshots of an unchanged cluster are identical but for ids.\<close>

theorem snapshot_deterministic:
  assumes "same_caches K rsl a b"
  shows "EmitFullSnapshot K rsl a snapshotType now_ms rnd c = EmitFullSnapshot K rsl b snapshotType now_ms rnd c"
proof -
  note same = assms [unfolded same_caches_def]
  have "body_outs K rsl a sid = body_outs K rsl b sid" for sid
    unfolding body_outs_def
    by (intro arg_cong2 [where f = "(@)"] listed_same dynamic_same same [THEN conjunct1]
        same [THEN conjunct2, THEN conjunct1] same [THEN conjunct2, THEN conjunct2, THEN conjunct1]
        same [THEN conjunct2, THEN conjunct2, THEN conjunct2, THEN conjunct1]
        same [THEN conjunct2, THEN conjunct2, THEN conjunct2, THEN conjunct2, THEN conjunct1]
        same [THEN conjunct2, THEN conjunct2, THEN conjunct2, THEN conjunct2, THEN conjunct2, THEN conjunct1]
        same [THEN conjunct2, THEN conjunct2, THEN conjunct2, THEN conjunct2, THEN conjunct2, THEN conjunct2]
        pod_less.comparison_axioms service_less.comparison_axioms endpoint_slice_less.comparison_axioms
        ingress_less.comparison_axioms ingress_class_less.comparison_axioms)
  then show ?thesis by (simp add: EmitFullSnapshot_outs snapshot_outs_def)
qed

theorem snapshot_deterministic_witness:
  "EmitFullSnapshot ref_kapi None (resources_example\<lparr>sr_Ingresses := Some (Inr [ingress_example,
       ingress_example\<lparr>i_Meta := (i_Meta ingress_example)\<lparr>m_Name := ''api''\<rparr>\<rparr>])\<rparr>) ''init'' 7 [] init_collector =
   EmitFullSnapshot ref_kapi None (resources_example\<lparr>sr_Ingresses := Some (Inr
      [ingress_example\<lparr>i_Meta := (i_Meta ingress_example)\<lparr>m_Name := ''api''\<rparr>\<rparr>, ingress_example])\<rparr>) ''init'' 7 []
     init_collector"
proof (rule snapshot_deterministic)
  let ?i = "ingress_example\<lparr>i_Meta := (i_Meta ingress_example)\<lparr>m_Name := ''api''\<rparr>\<rparr>"
  have "comparison.separated (\<lambda>a b. nsNameLess (m_Namespace (i_Meta a)) (m_Name (i_Meta a))
      (m_Namespace (i_Meta b)) (m_Name (i_Meta b))) {ingress_example, ?i}"
    unfolding ingress_less.separated_def by (simp add: nsNameLess_def ingress_example_def)
  then show "same_caches ref_kapi None (resources_example\<lparr>sr_Ingresses := Some (Inr [ingress_example, ?i])\<rparr>)
      (resources_example\<lparr>sr_Ingresses := Some (Inr [?i, ingress_example])\<rparr>)"
    by (simp add: same_caches_def same_list_def resources_example_def same_dynamic_def pod_less.separated_def
        unstructured_less.separated_def UnstructuredList_def as_Unstructured_def)
qed

subsection \<open>Snapshot ids sort by time\<close>

fun base256 :: "nat \<Rightarrow> nat \<Rightarrow> nat list" where
  "base256 0 n = []"
| "base256 (Suc k) n = n div 256 ^ k mod 256 # base256 k n"

lemma base256_mod: "k \<le> m \<Longrightarrow> base256 k (n mod 256 ^ m) = base256 k n"
proof (induction k)
  case (Suc k)
  then have "(256::nat) ^ m = 256 ^ k * 256 ^ (m - k)" by (simp flip: power_add)
  then have "n mod 256 ^ m div 256 ^ k = n div 256 ^ k mod 256 ^ (m - k)"
    by (simp add: mod_mult2_eq)
  moreover have "(256::nat) dvd 256 ^ (m - k)" using Suc.prems by (intro dvd_power) simp_all
  ultimately show ?case using Suc by (simp add: mod_mod_cancel)
qed simp

lemma base256_less: "n < m \<Longrightarrow> m < 256 ^ k \<Longrightarrow> base256 k n < base256 k m"
proof (induction k arbitrary: n m)
  case (Suc k)
  have small: "n div 256 ^ k < 256" "m div 256 ^ k < 256"
    using Suc.prems by (simp_all add: less_mult_imp_div_less mult.commute)
  have le: "n div 256 ^ k \<le> m div 256 ^ k" using Suc.prems(1) by (simp add: div_le_mono)
  show ?case
  proof (cases "n div 256 ^ k = m div 256 ^ k")
    case True
    have "n mod 256 ^ k < m mod 256 ^ k"
    proof (rule ccontr)
      assume "\<not> n mod 256 ^ k < m mod 256 ^ k"
      then have "m div 256 ^ k * 256 ^ k + m mod 256 ^ k \<le> n div 256 ^ k * 256 ^ k + n mod 256 ^ k"
        using True by simp
      then have "m \<le> n" by (simp only: div_mult_mod_eq)
      with Suc.prems(1) show False by simp
    qed
    then have "base256 k (n mod 256 ^ k) < base256 k (m mod 256 ^ k)" by (intro Suc.IH) simp_all
    with True show ?thesis by (simp add: base256_mod)
  next
    case False
    with le small show ?thesis by simp
  qed
qed simp

lemma unat_drop: "unat (drop_bit n w) = unat w div 2 ^ n" for w :: "'a :: len word"
proof -
  have "unat (drop_bit n w) = drop_bit n (unat w)" by (simp add: unsigned_drop_bit_eq take_bit_nat_eq_self unsigned_less)
  then show ?thesis by (simp only: drop_bit_eq_div [of n "unat w"])
qed

lemma base256_map: "base256 k n = map (\<lambda>i. n div 256 ^ (k - Suc i) mod 256) [0..<k]"
proof (induction k)
  case (Suc k)
  have "[0..<Suc k] = 0 # map Suc [0..<k]" by (simp add: upt_conv_Cons map_Suc_upt del: upt_Suc)
  then show ?case by (simp add: Suc comp_def del: upt_Suc)
qed simp

lemma put_uint64_base256: "map unat (put_uint64 v) = base256 8 (unat v)"
proof -
  have byte: "unat (ucast (drop_bit n v) :: 8 word) = unat v div 2 ^ n mod 256" for n
    by (simp add: unsigned_ucast_eq unat_drop take_bit_eq_mod)
  have "56 - 8 * i = 8 * (8 - Suc i)" for i :: nat by simp
  then have "(2::nat) ^ (56 - 8 * i) = 256 ^ (8 - Suc i)" for i by (simp only: power_mult) simp
  then show ?thesis by (simp add: put_uint64_def base256_map byte comp_def del: upt_Suc)
qed

lemma hex_digit_less: "a < b \<Longrightarrow> b < 16 \<Longrightarrow> hex_digit a < hex_digit b"
proof -
  assume "a < b" "b < 16"
  then have "a \<in> set [0..<16]" "b \<in> set [0..<16]" by simp_all
  moreover have "\<forall>a\<in>set [0..<16]. \<forall>b\<in>set [0..<16]. a < b \<longrightarrow> hex_digit a < hex_digit b"
    by (simp add: hex_digit_def upt_rec less_char_def)
  ultimately show ?thesis using \<open>a < b\<close> by blast
qed

lemma hex_byte_nat: "hex_byte b = [hex_digit (unat b div 16), hex_digit (unat b mod 16)]"
proof -
  have "unat (b AND 15) = unat b mod 16"
    using take_bit_eq_mask [of 4 "unat b"]
    by (simp add: unsigned_and_eq unsigned_numeral mask_eq_exp_minus_1 take_bit_eq_mod)
  then show ?thesis by (simp add: hex_byte_def unat_drop)
qed

lemma hex_byte_less: "unat a < unat b \<Longrightarrow> hex_byte a @ x < hex_byte b @ y"
proof -
  assume less: "unat a < unat b"
  have bound: "unat b < 256" using unsigned_less [of b] by simp
  show ?thesis
  proof (cases "unat a div 16 = unat b div 16")
    case True
    with less have "unat a mod 16 < unat b mod 16" by (metis div_mult_mod_eq nat_add_left_cancel_less)
    with True show ?thesis by (simp add: hex_byte_nat hex_digit_less)
  next
    case False
    with less have "unat a div 16 < unat b div 16" by (simp add: div_le_mono le_neq_implies_less)
    then show ?thesis using bound by (simp add: hex_byte_nat hex_digit_less)
  qed
qed

lemma hex_encode_less:
  "map unat xs < map unat ys \<Longrightarrow> length xs = length ys \<Longrightarrow> hex_encode xs @ u < hex_encode ys @ v"
proof (induction xs ys rule: list_induct2')
  case (4 x xs y ys)
  show ?case
  proof (cases "unat x < unat y")
    case True
    then show ?thesis using hex_byte_less [of x y] by (simp add: hex_encode_def)
  next
    case False
    with "4.prems" have "x = y" "map unat xs < map unat ys" by (auto simp: word_unat_eq_iff)
    with "4.IH" "4.prems" show ?thesis by (simp add: hex_encode_def hex_byte_def)
  qed
qed simp_all

lemma length_hex_encode [simp]: "length (hex_encode bs) = 2 * length bs"
  by (induction bs) (simp_all add: hex_encode_def hex_byte_def)

lemma hex_encode_append: "hex_encode (as @ bs) = hex_encode as @ hex_encode bs"
  by (simp add: hex_encode_def)

text \<open>C30: a snapshot id has 32 characters, and ids sort as strings by the millisecond of the snapshot,
  whatever the random part is.\<close>

theorem snapshot_id_sorts:
  assumes "length rnd = 8" and "t < t'"
  shows "length (newSnapshotID t rnd) = 32 \<and> newSnapshotID t rnd < newSnapshotID t' rnd'"
proof -
  have "base256 8 (unat t) < base256 8 (unat t')"
    using assms(2) unsigned_less [of t'] by (intro base256_less) (simp_all add: word_less_nat_alt)
  then have "map unat (put_uint64 t) < map unat (put_uint64 t')" by (simp only: put_uint64_base256)
  moreover have "length (put_uint64 t) = length (put_uint64 t')" by (simp add: put_uint64_def)
  ultimately show ?thesis
    using assms(1) by (simp add: newSnapshotID_def hex_encode_append hex_encode_less) (simp add: put_uint64_def)
qed

theorem snapshot_id_sorts_witness:
  "newSnapshotID 1700000000000 [1, 2, 3, 4, 5, 6, 7, 255] < newSnapshotID 1700000000001 []"
  using snapshot_id_sorts [of "[1, 2, 3, 4, 5, 6, 7, 255]" 1700000000000 1700000000001 "[]"] by simp

subsection \<open>The periodic snapshot\<close>

text \<open>
  \<open>parse\<close> is \<^verbatim>\<open>time.ParseDuration\<close> with \<^const>\<open>None\<close> for an error, \<open>getenv\<close> is
  \<^verbatim>\<open>os.Getenv\<close>, \<open>rand\<close> the value \<^verbatim>\<open>rand.Int64N\<close> returns.
\<close>

definition defaultSnapshotInterval :: int where
  "defaultSnapshotInterval = 6 * hour_ns"

definition resolveSnapshotInterval ::
  "(string \<Rightarrow> int option) \<Rightarrow> (string \<Rightarrow> string) \<Rightarrow> collector \<Rightarrow> int \<times> collector" where
  "resolveSnapshotInterval parse getenv c =
     (let raw = trim_space (getenv ''SNAPSHOT_INTERVAL'')
      in if raw = [] then (defaultSnapshotInterval, c)
         else if equal_fold raw ''off'' \<or> equal_fold raw ''disabled'' \<or> raw = ''0'' then (0, c)
         else (case parse raw of
             Some d \<Rightarrow> if d < minute_ns
               then (defaultSnapshotInterval,
                 Log_at LWarn ''snapshot: invalid SNAPSHOT_INTERVAL, using default''
                   [(''value'', AStr raw), (''default'', AInt defaultSnapshotInterval)] c)
               else (d, c)
           | None \<Rightarrow> (defaultSnapshotInterval,
               Log_at LWarn ''snapshot: invalid SNAPSHOT_INTERVAL, using default''
                 [(''value'', AStr raw), (''default'', AInt defaultSnapshotInterval)] c)))"

text \<open>
  The loop over the timer: each element of \<open>ticks\<close> is one firing with what the snapshot then
  reads; the list ends where the context is done.  The result has the delays the timer was set to.
\<close>

fun snapshot_ticks ::
  "kapi \<Rightarrow> rs_lister \<Rightarrow> int \<Rightarrow> (SnapshotResources \<times> u64 \<times> 8 word list) list \<Rightarrow> int list \<times> collector \<Rightarrow>
   int list \<times> collector" where
  "snapshot_ticks K rsl interval [] (delays, c) = (delays, c)"
| "snapshot_ticks K rsl interval ((rs, now_ms, rnd) # ticks) (delays, c) =
     snapshot_ticks K rsl interval ticks
       (delays @ [interval], EmitFullSnapshot K rsl rs ''reconcile'' now_ms rnd c)"

definition SnapshotLoop ::
  "kapi \<Rightarrow> rs_lister \<Rightarrow> (string \<Rightarrow> int option) \<Rightarrow> (string \<Rightarrow> string) \<Rightarrow> (int \<Rightarrow> int) \<Rightarrow>
   (SnapshotResources \<times> u64 \<times> 8 word list) list \<Rightarrow> collector \<Rightarrow> int list \<times> collector" where
  "SnapshotLoop K rsl parse getenv rand ticks c =
     (let (interval, c) = resolveSnapshotInterval parse getenv c
      in if interval \<le> 0 then ([], Log_at LInfo ''snapshot: disabled'' [] c)
         else
           (let firstDelay = (if interval > minute_ns then rand interval else interval);
                c = Log_at LInfo ''snapshot: scheduled''
                  [(''interval'', AInt interval), (''first_delay'', AInt firstDelay)] c
            in snapshot_ticks K rsl interval ticks ([firstDelay], c)))"

lemma snapshot_ticks_eq: "snapshot_ticks K rsl interval ticks (delays, c) =
    (delays @ replicate (length ticks) interval,
     log_outs (concat (map (\<lambda>(rs, now_ms, rnd). snapshot_outs K rsl rs ''reconcile'' (newSnapshotID now_ms rnd)) ticks)) c)"
  by (induction ticks arbitrary: delays c) (auto simp: EmitFullSnapshot_outs)

lemma interval_range: "resolveSnapshotInterval parse getenv c = (interval, c') \<Longrightarrow> interval = 0 \<or> minute_ns \<le> interval"
  by (auto simp: resolveSnapshotInterval_def defaultSnapshotInterval_def duration_defs Let_def
      split: option.splits if_splits)

text \<open>C31: whatever the environment says, the periodic snapshot is off or has an interval of at least a
  minute; then the timer is first set to a delay within one interval and after each snapshot to the
  interval, and each firing logs exactly one reconcile snapshot.\<close>

theorem snapshot_loop_paced:
  assumes "resolveSnapshotInterval parse getenv c = (interval, c')"
    and "\<forall>n>0. 0 \<le> rand n \<and> rand n < n"
    and run: "run = SnapshotLoop K rsl parse getenv rand ticks c"
  shows "(if interval = 0 then fst run = [] else minute_ns \<le> interval \<and>
      (\<exists>first. 0 \<le> first \<and> first \<le> interval \<and> fst run = first # replicate (length ticks) interval \<and>
        snd run = log_outs (OLog LInfo ''snapshot: scheduled''
            [(''interval'', AInt interval), (''first_delay'', AInt first)] #
          concat (map (\<lambda>(rs, now_ms, rnd). snapshot_outs K rsl rs ''reconcile'' (newSnapshotID now_ms rnd)) ticks)) c'))"
proof (cases "interval = 0")
  case True
  with assms(1) show ?thesis by (simp add: run SnapshotLoop_def)
next
  case False
  with interval_range [OF assms(1)] have min: "minute_ns \<le> interval" by simp
  then have pos: "0 < interval" by (simp add: duration_defs)
  define first where "first = (if interval > minute_ns then rand interval else interval)"
  have "0 \<le> first" "first \<le> interval" using assms(2) [rule_format, OF pos] pos by (simp_all add: first_def)
  moreover have "run = snapshot_ticks K rsl interval ticks ([first], Log_at LInfo ''snapshot: scheduled''
      [(''interval'', AInt interval), (''first_delay'', AInt first)] c')"
    using assms(1) pos unfolding run SnapshotLoop_def first_def by (simp add: Let_def del: Log_at_eq)
  ultimately show ?thesis
    using False min by (simp add: snapshot_ticks_eq log_outs_Cons del: Log_at_eq)
qed

theorem snapshot_loop_paced_witness:
  "tl (fst (SnapshotLoop ref_kapi None (\<lambda>_. None) (\<lambda>_. ''15 bananas'') (\<lambda>n. n div 2)
      [(resources_example, 1700000000000, [])] init_collector)) = [6 * hour_ns]"
proof -
  let ?c' = "snd (resolveSnapshotInterval (\<lambda>_. None) (\<lambda>_. ''15 bananas'') init_collector)"
  have res: "resolveSnapshotInterval (\<lambda>_. None) (\<lambda>_. ''15 bananas'') init_collector = (6 * hour_ns, ?c')"
  proof -
    have "trim_space ''15 bananas'' = ''15 bananas''" by (rule trim_space_graphic) (simp_all add: graphic_def)
    moreover have "\<not> equal_fold ''15 bananas'' ''off''" "\<not> equal_fold ''15 bananas'' ''disabled''"
      by (simp_all add: equal_fold_def to_lower_char_def)
    ultimately show ?thesis by (simp add: resolveSnapshotInterval_def defaultSnapshotInterval_def)
  qed
  have "\<forall>n>0. 0 \<le> n div 2 \<and> n div 2 < (n :: int)" by auto
  note run = snapshot_loop_paced [OF res this refl, of ref_kapi None "[(resources_example, 1700000000000, [])]"]
  have "6 * hour_ns \<noteq> 0" by (simp add: duration_defs)
  from run [unfolded if_not_P [OF this]] obtain first where
    "fst (SnapshotLoop ref_kapi None (\<lambda>_. None) (\<lambda>_. ''15 bananas'') (\<lambda>n. n div 2)
      [(resources_example, 1700000000000, [])] init_collector) =
     first # replicate (length [(resources_example, 1700000000000 :: u64, [] :: 8 word list)]) (6 * hour_ns)"
    by (elim exE conjE)
  then show ?thesis by (simp only: list.sel list.size replicate.simps) simp
qed

subsection \<open>Operational lines carry no event id\<close>

lemma kind_outs_ok:
  "(\<And>x. list_all is_rec (outs x)) \<Longrightarrow> list_all line_ok (kind_outs sid dumpKind targetKind outs cnt keys xs)"
  by (induction xs) (auto simp: kind_outs_def dump_outs_def keys_out_def rec_line_ok)

lemma listed_outs_ok:
  "(\<And>xs. list_all line_ok (kind xs)) \<Longrightarrow> list_all line_ok (listed_outs msg kind lt src)"
  by (auto simp: listed_outs_def split: option.split sum.split)

lemma dynamic_outs_ok: "(\<And>g xs. list_all line_ok (kind g xs)) \<Longrightarrow> list_all line_ok (dynamic_outs K kind dss)"
  by (induction dss) (auto simp: dynamic_outs_def)

lemmas kinds_ok = container_kind_outs_def service_kind_outs_def endpoint_slice_kind_outs_def
  ingress_kind_outs_def ingress_class_kind_outs_def gateway_kind_outs_def traefik_kind_outs_def

lemma snapshot_outs_ok: "list_all line_ok (snapshot_outs K rsl rs snapshotType sid)"
proof -
  have "list_all line_ok (container_kind_outs rsl sid ps)" for ps
    unfolding kinds_ok by (rule kind_outs_ok) (rule pod_initial.outs_rec)
  moreover have "list_all line_ok (service_kind_outs sid ss)" for ss
    unfolding kinds_ok by (rule kind_outs_ok) (rule service_initial.outs_rec)
  moreover have "list_all line_ok (endpoint_slice_kind_outs sid es)" for es
    unfolding kinds_ok by (rule kind_outs_ok) (rule endpoint_slice_initial.outs_rec)
  moreover have "list_all line_ok (ingress_kind_outs sid is)" for "is"
    unfolding kinds_ok by (rule kind_outs_ok) (rule ingress_initial.outs_rec)
  moreover have "list_all line_ok (ingress_class_kind_outs sid ics)" for ics
    unfolding kinds_ok by (rule kind_outs_ok) (rule ingress_class_initial.outs_rec)
  moreover have "list_all line_ok (gateway_kind_outs K sid g us)" for g us
    unfolding kinds_ok by (rule kind_outs_ok) (rule gateway_initial.outs_rec)
  moreover have "list_all line_ok (traefik_kind_outs K sid g us)" for g us
    unfolding kinds_ok by (rule kind_outs_ok) (rule traefik_initial.outs_rec)
  ultimately show ?thesis
    by (simp add: snapshot_outs_def begin_out_def end_out_def body_outs_def listed_outs_ok dynamic_outs_ok)
qed

lemma EmitFullSnapshot_logs: "call_logs (EmitFullSnapshot K rsl rs snapshotType now_ms rnd)
    (snapshot_outs K rsl rs snapshotType (newSnapshotID now_ms rnd))"
  by (simp add: call_logs_def fun_eq_iff EmitFullSnapshot_outs snapshot_outs_ok)

end
