(* ===== verification/Push.thy ===== *)
theory Push
  imports Event_Log
begin

section \<open>Delivery to SPAM: push.go\<close>

text \<open>
  With a callcenter configured, every line of the log is also kept in a bounded buffer, and a loop
  posts the buffer in batches every thirty seconds.  What a post comes to is the network's choice:
  \<open>net i\<close> is the outcome of the \<open>i\<close>-th request.  Records are lines of JSON text.
\<close>

definition PushInterval :: int where
  "PushInterval = 30 * second_ns"

definition maxBackoff :: int where
  "maxBackoff = 5 * minute_ns"

definition maxBufferSize :: nat where
  "maxBufferSize = 10000"

definition pushBatchLimit :: nat where
  "pushBatchLimit = 2000"

definition snapshotCooldown :: int where
  "snapshotCooldown = 5 * minute_ns"

lemmas push_consts = PushInterval_def maxBackoff_def snapshotCooldown_def duration_defs

subsection \<open>The capture buffer\<close>

record LineCapture =
  lc_Stdout :: "string list"
  lc_buf :: "string list"

text \<open>
  \<open>Write\<close> passes on what the writer to standard output returned; \<open>out_write\<close> is that
  result.
\<close>

definition Write :: "(string \<Rightarrow> int \<times> string option) \<Rightarrow> string \<Rightarrow> LineCapture \<Rightarrow> (int \<times> string option) \<times> LineCapture" where
  "Write out_write p lc =
     (let lc = lc\<lparr>lc_Stdout := lc_Stdout lc @ [p]\<rparr>;
          trimmed = trim_space p
      in (out_write p,
          if trimmed \<noteq> [] \<and> hd trimmed = CHR ''{'' then
            (let buf = (if length (lc_buf lc) \<ge> maxBufferSize
                   then drop (length (lc_buf lc) - maxBufferSize + 1) (lc_buf lc) else lc_buf lc)
             in lc\<lparr>lc_buf := buf @ [trimmed]\<rparr>)
          else lc))"

definition Flush :: "LineCapture \<Rightarrow> string list \<times> LineCapture" where
  "Flush lc = (lc_buf lc, lc\<lparr>lc_buf := []\<rparr>)"

definition Rebuffer :: "string list \<Rightarrow> LineCapture \<Rightarrow> LineCapture" where
  "Rebuffer recs lc =
     (let buf = recs @ lc_buf lc
      in lc\<lparr>lc_buf := (if length buf > maxBufferSize then drop (length buf - maxBufferSize) buf else buf)\<rparr>)"

subsection \<open>Posting\<close>

text \<open>
  The outcome of a request: one of the three errors before or during it, or a status with the
  value \<^verbatim>\<open>last_seen_event_id\<close> has after decoding the body.
\<close>

datatype http_result =
    MarshalError string
  | RequestError string
  | PostError string
  | Response int u64

definition push :: "http_result \<Rightarrow> string list \<Rightarrow> u64 \<times> bool \<times> out list" where
  "push outcome recs =
     (if recs = [] then (0, True, [])
      else (case outcome of
          MarshalError e \<Rightarrow> (0, False, [OLog LError ''push: marshal'' [(''err'', AStr e)]])
        | RequestError e \<Rightarrow> (0, False, [OLog LError ''push: build request'' [(''err'', AStr e)]])
        | PostError e \<Rightarrow> (0, False, [OLog LError ''push: post'' [(''err'', AStr e)]])
        | Response status seen \<Rightarrow>
            if status \<noteq> 200
            then (0, False, [OLog LError ''push: unexpected status'' [(''status'', AInt status)]])
            else (seen, True, [])))"

text \<open>
  The result of \<open>pushAll\<close>, with the posts it made (for each batch, whether SPAM acknowledged
  it) and the lines it wrote to the local log.
\<close>

record push_result =
  pr_lastSeen :: u64
  pr_unsent :: "string list"
  pr_ok :: bool
  pr_posts :: "(string list \<times> bool) list"
  pr_local :: "out list"

function pushAll_loop ::
  "(nat \<Rightarrow> http_result) \<Rightarrow> nat \<Rightarrow> string list \<Rightarrow> push_result \<Rightarrow> push_result" where
  "pushAll_loop net i recs r =
     (if recs = [] then r\<lparr>pr_unsent := [], pr_ok := True\<rparr>
      else
        (let batch = (if length recs > pushBatchLimit then take pushBatchLimit recs else recs);
             (seen, ok, logs) = push (net i) batch;
             r = r\<lparr>pr_posts := pr_posts r @ [(batch, ok)], pr_local := pr_local r @ logs\<rparr>
         in if \<not> ok then r\<lparr>pr_unsent := recs, pr_ok := False\<rparr>
            else pushAll_loop net (i + 1) (drop (length batch) recs)
              (r\<lparr>pr_lastSeen := if seen > pr_lastSeen r then seen else pr_lastSeen r\<rparr>)))"
  by pat_completeness auto
termination
  by (relation "measure (\<lambda>(net, i, recs, r). length recs)") (auto simp: pushBatchLimit_def)

declare pushAll_loop.simps [simp del]

definition pushAll :: "(nat \<Rightarrow> http_result) \<Rightarrow> string list \<Rightarrow> push_result" where
  "pushAll net recs = pushAll_loop net 0 recs
     \<lparr>pr_lastSeen = 0, pr_unsent = [], pr_ok = True, pr_posts = [], pr_local = []\<rparr>"

definition NextBackoff :: "int \<Rightarrow> int" where
  "NextBackoff current =
     (if current = 0 then PushInterval
      else let next' = current * 2 in if next' > maxBackoff then maxBackoff else next')"

text \<open>\<open>event_id\<close> is \<^verbatim>\<open>json.Unmarshal\<close> into the struct: \<^const>\<open>None\<close> for an error, else the field (0 if absent).\<close>

fun scanMaxEventID :: "(string \<Rightarrow> u64 option) \<Rightarrow> string list \<Rightarrow> u64 \<Rightarrow> u64" where
  "scanMaxEventID event_id [] maxID = maxID"
| "scanMaxEventID event_id (r # rs) maxID =
     (case event_id r of
        None \<Rightarrow> scanMaxEventID event_id rs maxID
      | Some e \<Rightarrow> scanMaxEventID event_id rs (if e > maxID then e else maxID))"

subsection \<open>The loop\<close>

text \<open>
  One tick has two halves, between which the requests run and other goroutines keep writing: up to
  taking the buffer, and from the result of \<open>pushAll\<close> on.  \<open>lastSnapshotAt\<close> is
  \<^const>\<open>None\<close> for the zero time, which lies further back than the cooldown.
\<close>

record push_vars =
  pv_backoff :: int
  pv_lastPushedEventID :: u64
  pv_lastSnapshotAt :: "int option"

definition init_push_vars :: push_vars where
  "init_push_vars = \<lparr>pv_backoff = 0, pv_lastPushedEventID = 0, pv_lastSnapshotAt = None\<rparr>"

definition tick_begin :: "push_vars \<Rightarrow> LineCapture \<Rightarrow> push_vars \<times> LineCapture \<times> string list option" where
  "tick_begin v cap =
     (if pv_backoff v > 0 \<and> pv_backoff v - PushInterval > 0
      then (v\<lparr>pv_backoff := pv_backoff v - PushInterval\<rparr>, cap, None)
      else
        (let v = (if pv_backoff v > 0 then v\<lparr>pv_backoff := 0\<rparr> else v);
             (recs, cap) = Flush cap
         in (v, cap, if recs = [] then None else Some recs)))"

definition cooled_down :: "int option \<Rightarrow> int \<Rightarrow> bool" where
  "cooled_down since now = (case since of None \<Rightarrow> True | Some t \<Rightarrow> now - t \<ge> snapshotCooldown)"

text \<open>
  The second half: \<open>now\<close> is the time of the cooldown test, \<open>now'\<close> that after the
  snapshot.  The result has the lines for the local log, those for the captured log, and whether the
  snapshot is triggered.
\<close>

record tick_result =
  tk_vars :: push_vars
  tk_cap :: LineCapture
  tk_local :: "out list"
  tk_log :: "out list"
  tk_fire :: bool

definition tick_end ::
  "(string \<Rightarrow> u64 option) \<Rightarrow> string \<Rightarrow> bool \<Rightarrow> int \<Rightarrow> int \<Rightarrow> string list \<Rightarrow> push_result \<Rightarrow> push_vars \<Rightarrow>
   LineCapture \<Rightarrow> tick_result" where
  "tick_end event_id endpoint has_trigger now now' recs r v cap =
     (if \<not> pr_ok r then
        (let v = v\<lparr>pv_backoff := NextBackoff (pv_backoff v)\<rparr>
         in \<lparr>tk_vars = v, tk_cap = Rebuffer (pr_unsent r) cap,
              tk_local = [OLog LWarn ''push failed, backing off''
                [(''retry_in'', AInt (pv_backoff v)), (''endpoint'', AStr endpoint)]],
              tk_log = [], tk_fire = False\<rparr>)
      else
        (let batchHigh = scanMaxEventID event_id recs 0;
             v = (if batchHigh > pv_lastPushedEventID v then v\<lparr>pv_lastPushedEventID := batchHigh\<rparr> else v)
         in if has_trigger \<and> pr_lastSeen r \<noteq> 0 \<and> pr_lastSeen r \<noteq> pv_lastPushedEventID v \<and>
               cooled_down (pv_lastSnapshotAt v) now
            then \<lparr>tk_vars = v\<lparr>pv_lastSnapshotAt := Some now'\<rparr>, tk_cap = cap, tk_local = [],
              tk_log = [OLog LInfo ''snapshot: ACK mismatch, firing reconcile''
                [(''last_pushed'', AU64 (pv_lastPushedEventID v)), (''spam_last_seen'', AU64 (pr_lastSeen r))]],
              tk_fire = True\<rparr>
            else \<lparr>tk_vars = v, tk_cap = cap, tk_local = [], tk_log = [], tk_fire = False\<rparr>))"

subsection \<open>What \<open>pushAll\<close> does with its records\<close>

definition acked :: "(string list \<times> bool) list \<Rightarrow> string list" where
  "acked posts = concat (map fst (filter snd posts))"

lemma acked_simps [simp]:
  "acked [] = []" "acked (xs @ ys) = acked xs @ acked ys"
  "acked ((b, ok) # xs) = (if ok then b else []) @ acked xs"
  by (simp_all add: acked_def)

lemma push_ok: "push outcome b = (seen, True, logs) \<Longrightarrow> logs = []"
  by (auto simp: push_def split: if_splits http_result.splits)

text \<open>One round of the loop, by outcome.\<close>

lemma pushAll_loop_induct [case_names nil fail more]:
  assumes "\<And>i r. P i [] r (r\<lparr>pr_unsent := [], pr_ok := True\<rparr>)"
    and "\<And>i recs r seen logs. recs \<noteq> [] \<Longrightarrow> push (net i) (take pushBatchLimit recs) = (seen, False, logs) \<Longrightarrow>
      P i recs r (r\<lparr>pr_posts := pr_posts r @ [(take pushBatchLimit recs, False)],
        pr_local := pr_local r @ logs, pr_unsent := recs, pr_ok := False\<rparr>)"
    and "\<And>i recs r seen logs. recs \<noteq> [] \<Longrightarrow> push (net i) (take pushBatchLimit recs) = (seen, True, logs) \<Longrightarrow>
      P (i + 1) (drop pushBatchLimit recs) (r\<lparr>pr_posts := pr_posts r @ [(take pushBatchLimit recs, True)],
          pr_local := pr_local r @ logs, pr_lastSeen := max (pr_lastSeen r) seen\<rparr>)
        (pushAll_loop net (i + 1) (drop pushBatchLimit recs) (r\<lparr>pr_posts := pr_posts r @ [(take pushBatchLimit recs, True)],
          pr_local := pr_local r @ logs, pr_lastSeen := max (pr_lastSeen r) seen\<rparr>)) \<Longrightarrow>
      P i recs r (pushAll_loop net (i + 1) (drop pushBatchLimit recs) (r\<lparr>pr_posts := pr_posts r @ [(take pushBatchLimit recs, True)],
          pr_local := pr_local r @ logs, pr_lastSeen := max (pr_lastSeen r) seen\<rparr>))"
  shows "P i recs r (pushAll_loop net i recs r)"
proof (induction "length recs" arbitrary: i recs r rule: less_induct)
  case less
  show ?case
  proof (cases "recs = []")
    case True
    with assms(1) show ?thesis by (simp add: pushAll_loop.simps)
  next
    case False
    have batch: "(if length recs > pushBatchLimit then take pushBatchLimit recs else recs) = take pushBatchLimit recs"
      by simp
    have rest: "drop (min (length recs) pushBatchLimit) recs = drop pushBatchLimit recs"
      by (simp add: min_def)
    obtain seen ok logs where p: "push (net i) (take pushBatchLimit recs) = (seen, ok, logs)"
      by (cases "push (net i) (take pushBatchLimit recs)") auto
    have shorter: "length (drop pushBatchLimit recs) < length recs"
      using False by (simp add: pushBatchLimit_def)
    have max: "(if seen > pr_lastSeen r then seen else pr_lastSeen r) = max (pr_lastSeen r) seen"
      using less_imp_le [of "pr_lastSeen r" seen] by (auto simp: max_def)
    show ?thesis
    proof (cases ok)
      case True
      have eq: "pushAll_loop net i recs r = pushAll_loop net (i + 1) (drop pushBatchLimit recs)
          (r\<lparr>pr_posts := pr_posts r @ [(take pushBatchLimit recs, True)],
            pr_local := pr_local r @ logs, pr_lastSeen := max (pr_lastSeen r) seen\<rparr>)"
        using False p True by (subst pushAll_loop.simps) (simp add: batch rest max Let_def)
      show ?thesis unfolding eq
        by (rule assms(3) [OF False, of i seen logs]) (use p True less.hyps [OF shorter] in simp_all)
    next
      case no: False
      have eq: "pushAll_loop net i recs r = r\<lparr>pr_posts := pr_posts r @ [(take pushBatchLimit recs, False)],
          pr_local := pr_local r @ logs, pr_unsent := recs, pr_ok := False\<rparr>"
        using False p no by (subst pushAll_loop.simps) (simp add: batch Let_def)
      show ?thesis unfolding eq by (rule assms(2) [OF False]) (use p no in simp)
    qed
  qed
qed

lemma pushAll_loop_split:
  "acked (pr_posts (pushAll_loop net i recs r)) @ pr_unsent (pushAll_loop net i recs r) = acked (pr_posts r) @ recs"
  by (rule pushAll_loop_induct [where P = "\<lambda>i recs r res. acked (pr_posts res) @ pr_unsent res = acked (pr_posts r) @ recs"])
    simp_all

lemma pushAll_loop_ok:
  "pr_ok (pushAll_loop net i recs r) \<longleftrightarrow> pr_unsent (pushAll_loop net i recs r) = []"
  by (rule pushAll_loop_induct [where P = "\<lambda>i recs r res. pr_ok res \<longleftrightarrow> pr_unsent res = []"]) simp_all

lemma pushAll_loop_sizes:
  "list_all (\<lambda>(b, ok). b \<noteq> [] \<and> length b \<le> pushBatchLimit) (pr_posts r) \<longrightarrow>
   list_all (\<lambda>(b, ok). b \<noteq> [] \<and> length b \<le> pushBatchLimit) (pr_posts (pushAll_loop net i recs r))"
  by (rule pushAll_loop_induct [where P = "\<lambda>i recs r res.
      list_all (\<lambda>(b, ok). b \<noteq> [] \<and> length b \<le> pushBatchLimit) (pr_posts r) \<longrightarrow>
      list_all (\<lambda>(b, ok). b \<noteq> [] \<and> length b \<le> pushBatchLimit) (pr_posts res)"])
    (simp_all add: pushBatchLimit_def)

lemma pushAll_loop_count:
  "length (pr_posts (pushAll_loop net i recs r)) \<le> length (pr_posts r) + (length recs + 1999) div 2000"
proof (rule pushAll_loop_induct [where P = "\<lambda>i recs r res.
    length (pr_posts res) \<le> length (pr_posts r) + (length recs + 1999) div 2000"], goal_cases)
  case (2 i recs r seen logs)
  then show ?case by (cases recs) simp_all
next
  case (3 i recs r seen logs)
  from 3(1) have "Suc ((length recs - 2000 + 1999) div 2000) \<le> (length recs + 1999) div 2000"
    by (cases "length recs \<le> 2000") (auto simp: Suc_le_eq div_greater_zero_iff neq_Nil_conv)
  with 3(3) show ?case by (simp add: pushBatchLimit_def)
qed simp

lemma pushAll_loop_last:
  "list_all snd (pr_posts r) \<longrightarrow> \<not> pr_ok (pushAll_loop net i recs r) \<longrightarrow>
   pr_posts (pushAll_loop net i recs r) \<noteq> [] \<and> list_all snd (butlast (pr_posts (pushAll_loop net i recs r))) \<and>
   last (pr_posts (pushAll_loop net i recs r)) = (take pushBatchLimit (pr_unsent (pushAll_loop net i recs r)), False)"
  by (rule pushAll_loop_induct [where P = "\<lambda>i recs r res. list_all snd (pr_posts r) \<longrightarrow> \<not> pr_ok res \<longrightarrow>
      pr_posts res \<noteq> [] \<and> list_all snd (butlast (pr_posts res)) \<and>
      last (pr_posts res) = (take pushBatchLimit (pr_unsent res), False)"]) simp_all

lemma pushAll_loop_full:
  "(if recs = [] then list_all (\<lambda>(b, ok). length b = pushBatchLimit) (butlast (pr_posts r))
    else list_all (\<lambda>(b, ok). length b = pushBatchLimit) (pr_posts r)) \<longrightarrow>
   list_all (\<lambda>(b, ok). length b = pushBatchLimit) (butlast (pr_posts (pushAll_loop net i recs r)))"
proof (rule pushAll_loop_induct [where P = "\<lambda>i recs r res.
    (if recs = [] then list_all (\<lambda>(b, ok). length b = pushBatchLimit) (butlast (pr_posts r))
     else list_all (\<lambda>(b, ok). length b = pushBatchLimit) (pr_posts r)) \<longrightarrow>
    list_all (\<lambda>(b, ok). length b = pushBatchLimit) (butlast (pr_posts res))"], goal_cases)
  case (3 i recs r seen logs)
  then show ?case by (cases "length recs \<le> pushBatchLimit") (auto simp: min_def split: if_splits)
qed simp_all

text \<open>C7: the acknowledged batches and the unsent rest are the records, in order and without overlap; the
  rest is empty exactly on success and otherwise starts with the batch that failed, the last one
  tried; all batches but the last have 2000 records and that one between 1 and 2000, so a full buffer
  takes at most five requests.\<close>

theorem push_all_partition:
  assumes "r = pushAll net recs"
  shows "acked (pr_posts r) @ pr_unsent r = recs \<and> (pr_ok r \<longleftrightarrow> pr_unsent r = []) \<and>
    (\<not> pr_ok r \<longrightarrow> pr_posts r \<noteq> [] \<and> list_all snd (butlast (pr_posts r)) \<and>
       last (pr_posts r) = (take pushBatchLimit (pr_unsent r), False)) \<and>
    list_all (\<lambda>(b, ok). b \<noteq> [] \<and> length b \<le> pushBatchLimit) (pr_posts r) \<and>
    list_all (\<lambda>(b, ok). length b = 2000) (butlast (pr_posts r)) \<and>
    length (pr_posts r) \<le> (length recs + 1999) div 2000"
proof -
  have limit: "pushBatchLimit = 2000" by (simp add: pushBatchLimit_def)
  define r0 where "r0 = \<lparr>pr_lastSeen = 0, pr_unsent = [], pr_ok = True, pr_posts = [], pr_local = []\<rparr>"
  have r: "r = pushAll_loop net 0 recs r0" by (simp add: assms pushAll_def r0_def)
  have r0: "pr_posts r0 = []" by (simp add: r0_def)
  show ?thesis
    unfolding r using pushAll_loop_split [of net 0 recs r0] pushAll_loop_ok [of net 0 recs r0]
      pushAll_loop_last [of r0 net 0 recs] pushAll_loop_sizes [of r0 net 0 recs]
      pushAll_loop_count [of net 0 recs r0] pushAll_loop_full [of recs r0 net 0]
    by (simp add: r0 limit)
qed

theorem push_all_partition_witness:
  "pr_posts (pushAll (\<lambda>i. PostError ''timeout'') [''{}'']) \<noteq> [] \<and>
   last (pr_posts (pushAll (\<lambda>i. PostError ''timeout'') [''{}''])) = ([''{}''], False)"
proof -
  have "pr_ok (pushAll (\<lambda>i. PostError ''timeout'') [''{}'']) = False"
    "pr_unsent (pushAll (\<lambda>i. PostError ''timeout'') [''{}'']) = [''{}'']"
    by (simp_all add: pushAll_def pushAll_loop.simps pushBatchLimit_def push_def Let_def)
  with push_all_partition [of "pushAll (\<lambda>i. PostError ''timeout'') [''{}'']", OF refl]
  show ?thesis by (simp add: pushBatchLimit_def)
qed

subsection \<open>The ids and the backoff\<close>

definition known_ids :: "(string \<Rightarrow> u64 option) \<Rightarrow> string list \<Rightarrow> u64 set" where
  "known_ids event_id recs = set (List.map_filter event_id recs)"

lemma scanMaxEventID_bounds:
  "maxID \<le> scanMaxEventID event_id recs maxID \<and>
   (\<forall>e\<in>known_ids event_id recs. e \<le> scanMaxEventID event_id recs maxID) \<and>
   (scanMaxEventID event_id recs maxID = maxID \<or> scanMaxEventID event_id recs maxID \<in> known_ids event_id recs)"
proof (induction recs arbitrary: maxID)
  case (Cons r rs)
  show ?case
  proof (cases "event_id r")
    case None
    with Cons [of maxID] show ?thesis by (simp add: known_ids_def)
  next
    case (Some e)
    with Cons [of "if e > maxID then e else maxID"] show ?thesis
      by (auto simp: known_ids_def not_less split: if_splits intro: order_trans less_imp_le)
  qed
qed (simp add: known_ids_def)

text \<open>C34: the scan returns the highest event id among the records that have a readable one, and 0 if
  none does; records without an id do not matter.\<close>

theorem scan_max_event_id: "scanMaxEventID event_id recs 0 = Max (insert 0 (known_ids event_id recs))"
proof (rule sym, rule Max_eqI)
  show "finite (insert 0 (known_ids event_id recs))" by (simp add: known_ids_def)
  show "y \<le> scanMaxEventID event_id recs 0" if "y \<in> insert 0 (known_ids event_id recs)" for y
    using that scanMaxEventID_bounds [of 0 event_id recs] by auto
  show "scanMaxEventID event_id recs 0 \<in> insert 0 (known_ids event_id recs)"
    using scanMaxEventID_bounds [of 0 event_id recs] by auto
qed

text \<open>Applied again and again from zero, the backoff doubles from 30 seconds and stays at 5 minutes
  once it would pass them.\<close>

theorem next_backoff_closed:
  "(NextBackoff ^^ Suc n) 0 = min (PushInterval * 2 ^ n) maxBackoff"
proof (induction n)
  case 0
  then show ?case by (simp add: NextBackoff_def push_consts)
next
  case (Suc n)
  have pos: "0 < min (PushInterval * 2 ^ n) maxBackoff" by (simp add: push_consts)
  have "(NextBackoff ^^ Suc (Suc n)) 0 = NextBackoff (min (PushInterval * 2 ^ n) maxBackoff)"
    using Suc by simp
  also have "\<dots> = min (2 * min (PushInterval * 2 ^ n) maxBackoff) maxBackoff"
    using pos by (simp add: NextBackoff_def Let_def min_def)
  also have "\<dots> = min (PushInterval * 2 ^ Suc n) maxBackoff"
    by (simp add: min_def push_consts)
  finally show ?case .
qed

subsection \<open>The loop with its surroundings\<close>

text \<open>
  The push loop runs against goroutines that write log lines at any time, also while its requests
  are on their way.  The state below is the loop's variables, the capture and the batch in flight;
  the last four fields record, for the statements only, which lines were captured, which SPAM
  acknowledged, whether a full buffer or the shutdown discarded lines, and when snapshots were
  triggered.
\<close>

record push_sys =
  sy_cap :: LineCapture
  sy_vars :: push_vars
  sy_inflight :: "string list option"
  sy_running :: bool
  sy_now :: int
  sy_written :: "string list"
  sy_delivered :: "string list"
  sy_lost :: bool
  sy_fires :: "int list"

definition init_push_sys :: push_sys where
  "init_push_sys = \<lparr>sy_cap = \<lparr>lc_Stdout = [], lc_buf = []\<rparr>, sy_vars = init_push_vars, sy_inflight = None,
     sy_running = True, sy_now = 0, sy_written = [], sy_delivered = [], sy_lost = False, sy_fires = []\<rparr>"

definition captured :: "string \<Rightarrow> string list" where
  "captured p = (let t = trim_space p in if t \<noteq> [] \<and> hd t = CHR ''{'' then [t] else [])"

definition sys_write :: "(string \<Rightarrow> int \<times> string option) \<Rightarrow> string \<Rightarrow> push_sys \<Rightarrow> push_sys" where
  "sys_write out_write p s = s\<lparr>sy_cap := snd (Write out_write p (sy_cap s)),
     sy_written := sy_written s @ captured p,
     sy_lost := sy_lost s \<or> captured p \<noteq> [] \<and> length (lc_buf (sy_cap s)) \<ge> maxBufferSize\<rparr>"

definition sys_tick :: "push_sys \<Rightarrow> push_sys" where
  "sys_tick s = (case tick_begin (sy_vars s) (sy_cap s) of (v, cap, recs) \<Rightarrow>
     s\<lparr>sy_vars := v, sy_cap := cap, sy_inflight := recs\<rparr>)"

definition sys_finish ::
  "(string \<Rightarrow> u64 option) \<Rightarrow> string \<Rightarrow> bool \<Rightarrow> (nat \<Rightarrow> http_result) \<Rightarrow> int \<Rightarrow> int \<Rightarrow> string list \<Rightarrow>
   push_sys \<Rightarrow> push_sys" where
  "sys_finish event_id endpoint has_trigger net now now' recs s =
     (let r = pushAll net recs;
          t = tick_end event_id endpoint has_trigger now now' recs r (sy_vars s) (sy_cap s)
      in s\<lparr>sy_vars := tk_vars t, sy_cap := tk_cap t, sy_inflight := None, sy_now := now',
           sy_delivered := sy_delivered s @ acked (pr_posts r),
           sy_lost := sy_lost s \<or> \<not> pr_ok r \<and> length (pr_unsent r) + length (lc_buf (sy_cap s)) > maxBufferSize,
           sy_fires := sy_fires s @ (if tk_fire t then [now] else [])\<rparr>)"

text \<open>The shutdown branch: one last flush, whose unsent rest is dropped.\<close>

definition sys_shutdown :: "(nat \<Rightarrow> http_result) \<Rightarrow> push_sys \<Rightarrow> push_sys" where
  "sys_shutdown net s =
     (let (recs, cap) = Flush (sy_cap s); r = pushAll net recs
      in s\<lparr>sy_cap := cap, sy_running := False, sy_delivered := sy_delivered s @ acked (pr_posts r),
           sy_lost := sy_lost s \<or> pr_unsent r \<noteq> []\<rparr>)"

inductive push_step :: "(string \<Rightarrow> u64 option) \<Rightarrow> string \<Rightarrow> bool \<Rightarrow> push_sys \<Rightarrow> push_sys \<Rightarrow> bool"
  for event_id :: "string \<Rightarrow> u64 option" and endpoint :: string and has_trigger :: bool where
  do_write: "push_step event_id endpoint has_trigger s (sys_write out_write p s)"
| do_tick: "sy_running s \<Longrightarrow> sy_inflight s = None \<Longrightarrow> push_step event_id endpoint has_trigger s (sys_tick s)"
| do_finish: "sy_inflight s = Some recs \<Longrightarrow> sy_now s \<le> now \<Longrightarrow> now \<le> now' \<Longrightarrow>
    push_step event_id endpoint has_trigger s (sys_finish event_id endpoint has_trigger net now now' recs s)"
| do_shutdown: "sy_running s \<Longrightarrow> sy_inflight s = None \<Longrightarrow>
    push_step event_id endpoint has_trigger s (sys_shutdown net s)"

inductive_cases push_stepE: "push_step event_id endpoint has_trigger s s'"

inductive push_reachable :: "(string \<Rightarrow> u64 option) \<Rightarrow> string \<Rightarrow> bool \<Rightarrow> push_sys \<Rightarrow> bool"
  for event_id :: "string \<Rightarrow> u64 option" and endpoint :: string and has_trigger :: bool where
  at_start: "push_reachable event_id endpoint has_trigger init_push_sys"
| after_step: "push_reachable event_id endpoint has_trigger s \<Longrightarrow> push_step event_id endpoint has_trigger s s' \<Longrightarrow>
    push_reachable event_id endpoint has_trigger s'"

text \<open>A property that holds at the start and is kept by each step holds in every reachable state.\<close>

lemma push_invariant:
  assumes "push_reachable event_id endpoint has_trigger s" "I init_push_sys"
    and "\<And>s out_write p. I s \<Longrightarrow> I (sys_write out_write p s)"
    and "\<And>s. I s \<Longrightarrow> sy_running s \<Longrightarrow> sy_inflight s = None \<Longrightarrow> I (sys_tick s)"
    and "\<And>s recs net now now'. I s \<Longrightarrow> sy_inflight s = Some recs \<Longrightarrow> sy_now s \<le> now \<Longrightarrow> now \<le> now' \<Longrightarrow>
      I (sys_finish event_id endpoint has_trigger net now now' recs s)"
    and "\<And>s net. I s \<Longrightarrow> sy_running s \<Longrightarrow> sy_inflight s = None \<Longrightarrow> I (sys_shutdown net s)"
  shows "I s"
  using assms(1)
proof induction
  case at_start
  then show ?case by (rule assms(2))
next
  case (after_step s s')
  from after_step(2,3) show ?case by (elim push_stepE) (auto intro: assms(3-6))
qed

definition in_flight :: "push_sys \<Rightarrow> string list" where
  "in_flight s = (case sy_inflight s of None \<Rightarrow> [] | Some recs \<Rightarrow> recs)"

definition pending :: "push_sys \<Rightarrow> string list" where
  "pending s = sy_delivered s @ in_flight s @ lc_buf (sy_cap s)"

lemma Write_buf: "lc_buf (snd (Write out_write p lc)) =
    (if captured p \<noteq> [] \<and> length (lc_buf lc) \<ge> maxBufferSize
     then drop (length (lc_buf lc) - maxBufferSize + 1) (lc_buf lc) else lc_buf lc) @ captured p"
  by (simp add: Write_def captured_def Let_def)

lemma captured_length: "length (captured p) \<le> 1"
  by (simp add: captured_def Let_def)

lemma tick_begin_cases:
  "tick_begin v cap = (v', cap', recs) \<Longrightarrow>
   (case recs of None \<Rightarrow> [] | Some r \<Rightarrow> r) @ lc_buf cap' = lc_buf cap \<and> recs \<noteq> Some [] \<and>
   pv_lastSnapshotAt v' = pv_lastSnapshotAt v"
  by (auto simp: tick_begin_def Flush_def Let_def split: if_splits)

definition order_inv :: "push_sys \<Rightarrow> bool" where
  "order_inv s \<longleftrightarrow> subseq (pending s) (sy_written s) \<and> (sy_lost s \<or> pending s = sy_written s) \<and>
     length (lc_buf (sy_cap s)) \<le> maxBufferSize"

lemma subseq_drop_mid: "subseq (xs @ ys @ zs) ws \<Longrightarrow> subseq (xs @ ys @ drop n zs) ws"
  by (rule subseq_order.trans) (auto intro!: list_emb_append_mono simp: suffix_drop suffix_imp_subseq)

lemma order_inv_write: "order_inv s \<Longrightarrow> order_inv (sys_write out_write p s)"
proof -
  assume inv: "order_inv s"
  let ?buf = "lc_buf (sy_cap s)"
  show ?thesis
  proof (cases "captured p \<noteq> [] \<and> length ?buf \<ge> maxBufferSize")
    case True
    have "subseq (sy_delivered s @ in_flight s @ drop (length ?buf - maxBufferSize + 1) ?buf) (sy_written s)"
      using inv by (intro subseq_drop_mid) (simp add: order_inv_def pending_def)
    then have "subseq ((sy_delivered s @ in_flight s @ drop (length ?buf - maxBufferSize + 1) ?buf) @ captured p)
        (sy_written s @ captured p)" by (rule list_emb_append_mono) simp
    moreover have "length (drop (length ?buf - maxBufferSize + 1) ?buf) + length (captured p) \<le> maxBufferSize"
      using True captured_length [of p] by (simp add: maxBufferSize_def)
    ultimately show ?thesis
      using True by (simp add: order_inv_def pending_def sys_write_def Write_buf in_flight_def)
  next
    case False
    then have "length ?buf + length (captured p) \<le> maxBufferSize"
      using inv captured_length [of p] by (cases "captured p = []") (auto simp: order_inv_def)
    moreover have "subseq (pending s @ captured p) (sy_written s @ captured p)"
      using inv by (intro list_emb_append_mono) (simp_all add: order_inv_def)
    ultimately show ?thesis
      using False inv by (auto simp: order_inv_def pending_def sys_write_def Write_buf in_flight_def)
  qed
qed

lemma order_inv_tick: "order_inv s \<Longrightarrow> sy_inflight s = None \<Longrightarrow> order_inv (sys_tick s)"
proof -
  assume inv: "order_inv s" and none: "sy_inflight s = None"
  obtain v cap recs where t: "tick_begin (sy_vars s) (sy_cap s) = (v, cap, recs)"
    by (cases "tick_begin (sy_vars s) (sy_cap s)")
  note parts = tick_begin_cases [OF t]
  then have "pending (sys_tick s) = pending s"
    using none by (simp add: pending_def in_flight_def sys_tick_def t)
  moreover have "length (lc_buf cap) \<le> length (lc_buf (sy_cap s))" by (metis parts length_append le_add2)
  ultimately show ?thesis using inv by (auto simp: order_inv_def sys_tick_def t)
qed

lemma tick_end_buf:
  "lc_buf (tk_cap (tick_end event_id endpoint has_trigger now now' recs r v cap)) =
     (if pr_ok r then lc_buf cap else lc_buf (Rebuffer (pr_unsent r) cap))"
  by (simp add: tick_end_def Let_def)

lemma Rebuffer_buf: "lc_buf (Rebuffer u cap) = drop (length u + length (lc_buf cap) - maxBufferSize) (u @ lc_buf cap)"
  by (simp add: Rebuffer_def Let_def)

lemma pushAll_split: "acked (pr_posts (pushAll net recs)) @ pr_unsent (pushAll net recs) = recs"
  using pushAll_loop_split [of net 0 recs] by (simp add: pushAll_def)

lemma pushAll_ok: "pr_ok (pushAll net recs) \<longleftrightarrow> pr_unsent (pushAll net recs) = []"
  using pushAll_loop_ok [of net 0 recs] by (simp add: pushAll_def)

lemma order_inv_finish:
  assumes "order_inv s" "sy_inflight s = Some recs"
  shows "order_inv (sys_finish event_id endpoint has_trigger net now now' recs s)"
proof -
  define r where "r = pushAll net recs"
  let ?s = "sys_finish event_id endpoint has_trigger net now now' recs s" and ?buf = "lc_buf (sy_cap s)"
  define n where "n = length (pr_unsent r) + length ?buf - maxBufferSize"
  have recs: "recs = acked (pr_posts r) @ pr_unsent r" and ok: "pr_ok r \<longleftrightarrow> pr_unsent r = []"
    unfolding r_def by (simp_all only: pushAll_split pushAll_ok)
  have small: "length ?buf \<le> maxBufferSize" using assms(1) by (simp add: order_inv_def)
  have pend: "pending s = sy_delivered s @ acked (pr_posts r) @ pr_unsent r @ ?buf"
    using assms(2) recs by (simp add: pending_def in_flight_def)
  have parts: "sy_delivered ?s = sy_delivered s @ acked (pr_posts r)" "sy_inflight ?s = None"
    "sy_written ?s = sy_written s" "sy_lost ?s \<longleftrightarrow> sy_lost s \<or> \<not> pr_ok r \<and> n \<noteq> 0"
    by (auto simp: sys_finish_def Let_def n_def simp flip: r_def)
  have "lc_buf (sy_cap ?s) = (if pr_ok r then ?buf else lc_buf (Rebuffer (pr_unsent r) (sy_cap s)))"
    by (simp add: sys_finish_def Let_def tick_end_buf flip: r_def)
  then have buf: "lc_buf (sy_cap ?s) = drop n (pr_unsent r @ ?buf)"
    using ok small by (simp add: Rebuffer_buf n_def)
  have new: "pending ?s = sy_delivered s @ acked (pr_posts r) @ drop n (pr_unsent r @ ?buf)"
    by (simp add: pending_def buf parts in_flight_def)
  have "subseq (sy_delivered s @ acked (pr_posts r) @ drop n (pr_unsent r @ ?buf)) (sy_written s)"
    using assms(1) by (intro subseq_drop_mid) (simp add: order_inv_def pend)
  moreover have "length (drop n (pr_unsent r @ ?buf)) \<le> maxBufferSize" by (simp add: n_def)
  moreover have "n \<noteq> 0 \<Longrightarrow> \<not> pr_ok r" using ok small by (auto simp: n_def)
  ultimately show ?thesis
    using assms(1) unfolding order_inv_def new parts buf by (cases "n = 0") (auto simp: pend)
qed

lemma order_inv_shutdown: "order_inv s \<Longrightarrow> sy_inflight s = None \<Longrightarrow> order_inv (sys_shutdown net s)"
proof -
  assume inv: "order_inv s" and none: "sy_inflight s = None"
  define r where "r = pushAll net (lc_buf (sy_cap s))"
  have buf: "lc_buf (sy_cap s) = acked (pr_posts r) @ pr_unsent r"
    unfolding r_def by (simp only: pushAll_split)
  have pend: "pending s = sy_delivered s @ acked (pr_posts r) @ pr_unsent r"
    using none by (simp add: pending_def in_flight_def buf)
  have new: "pending (sys_shutdown net s) = sy_delivered s @ acked (pr_posts r)"
    using none by (simp add: pending_def in_flight_def sys_shutdown_def Flush_def flip: r_def)
  have "subseq (sy_delivered s @ acked (pr_posts r)) (pending s)"
    unfolding pend by (metis append_assoc list_emb_append2 prefix_imp_subseq prefixI)
  then have "subseq (pending (sys_shutdown net s)) (sy_written (sys_shutdown net s))"
    unfolding new using inv subseq_order.trans by (auto simp: order_inv_def sys_shutdown_def Flush_def Let_def)
  moreover have "pr_unsent r = [] \<Longrightarrow> pending (sys_shutdown net s) = pending s" by (simp add: new pend)
  moreover have parts: "sy_written (sys_shutdown net s) = sy_written s"
    "sy_lost (sys_shutdown net s) \<longleftrightarrow> sy_lost s \<or> pr_unsent r \<noteq> []" "lc_buf (sy_cap (sys_shutdown net s)) = []"
    by (simp_all add: sys_shutdown_def Flush_def flip: r_def)
  ultimately show ?thesis using inv unfolding order_inv_def parts by auto
qed

lemma push_order_inv: "push_reachable event_id endpoint has_trigger s \<Longrightarrow> order_inv s"
proof (erule push_invariant)
  show "order_inv init_push_sys"
    by (simp add: order_inv_def init_push_sys_def pending_def in_flight_def)
qed (auto intro: order_inv_write order_inv_tick order_inv_finish order_inv_shutdown)

text \<open>C6: in every reachable state, with lines written at any time, the lines SPAM has acknowledged,
  then those in flight, then the buffer are lines that were captured, each at most once and in the
  order they were written; none is missing unless the buffer overflowed or the process shut down with
  lines unsent; and the buffer never exceeds its 10000 lines.\<close>

theorem push_delivery_in_order:
  assumes "push_reachable event_id endpoint has_trigger s"
  shows "subseq (sy_delivered s @ in_flight s @ lc_buf (sy_cap s)) (sy_written s) \<and>
    (sy_lost s \<or> sy_delivered s @ in_flight s @ lc_buf (sy_cap s) = sy_written s) \<and>
    length (lc_buf (sy_cap s)) \<le> 10000"
  using push_order_inv [OF assms] by (simp add: order_inv_def pending_def maxBufferSize_def)

definition push_example :: push_sys where
  "push_example = sys_finish (\<lambda>_. None) ''http://spam'' True (\<lambda>_. Response 200 0) 1 1 [''{}'']
     (sys_write (\<lambda>p. (0, None)) ''{''
       (sys_tick (sys_write (\<lambda>p. (0, None)) ''{}'' init_push_sys)))"

lemma trim_space_brace: "trim_space ''{}'' = ''{}''" "trim_space ''{'' = ''{''"
  by (rule trim_space_graphic; simp add: graphic_def)+

lemma push_example_inflight:
  "sy_inflight (sys_write (\<lambda>p. (0, None)) ''{''
     (sys_tick (sys_write (\<lambda>p. (0, None)) ''{}'' init_push_sys))) = Some [''{}'']"
  by (simp add: sys_write_def sys_tick_def init_push_sys_def tick_begin_def init_push_vars_def Write_def Flush_def
      trim_space_brace maxBufferSize_def)

lemma push_example_reachable: "push_reachable (\<lambda>_. None) ''http://spam'' True push_example"
  unfolding push_example_def
proof (rule after_step [OF _ do_finish], rule after_step [OF _ do_write], rule after_step [OF _ do_tick],
    rule after_step [OF at_start do_write])
  let ?s = "sys_write (\<lambda>p. (0, None)) ''{}'' init_push_sys"
  show "sy_running ?s" "sy_inflight ?s = None"
    by (simp_all add: sys_write_def init_push_sys_def)
  show "sy_inflight (sys_write (\<lambda>p. (0, None)) ''{'' (sys_tick ?s)) = Some [''{}'']"
    by (rule push_example_inflight)
  show "sy_now (sys_write (\<lambda>p. (0, None)) ''{'' (sys_tick ?s)) \<le> 1"
    by (simp add: sys_write_def sys_tick_def init_push_sys_def split: prod.split)
qed simp

theorem push_delivery_in_order_witness:
  "subseq (sy_delivered push_example @ in_flight push_example @ lc_buf (sy_cap push_example)) (sy_written push_example) \<and>
   sy_written push_example = [''{}'', ''{'']"
proof -
  have "sy_written push_example = [''{}'', ''{'']"
    by (simp add: push_example_def sys_finish_def sys_write_def sys_tick_def init_push_sys_def captured_def
        trim_space_brace Let_def split: prod.split)
  with push_delivery_in_order [OF push_example_reachable] show ?thesis by simp
qed

subsection \<open>The backoff of the loop\<close>

definition backoff_inv :: "push_sys \<Rightarrow> bool" where
  "backoff_inv s \<longleftrightarrow> pv_backoff (sy_vars s) \<in> {0, PushInterval} \<and>
     (sy_inflight s \<noteq> None \<longrightarrow> pv_backoff (sy_vars s) = 0)"

lemma push_backoff_inv: "push_reachable event_id endpoint has_trigger s \<Longrightarrow> backoff_inv s"
proof (erule push_invariant)
  show "backoff_inv init_push_sys" by (simp add: backoff_inv_def init_push_sys_def init_push_vars_def)
  show "backoff_inv (sys_write out_write p s)" if "backoff_inv s" for s out_write p
    using that by (simp add: backoff_inv_def sys_write_def)
  show "backoff_inv (sys_tick s)" if "backoff_inv s" for s
    using that by (auto simp: backoff_inv_def sys_tick_def tick_begin_def Flush_def Let_def push_consts)
  show "backoff_inv (sys_finish event_id endpoint has_trigger net now now' recs s)"
    if "backoff_inv s" "sy_inflight s = Some recs" for s recs net now now'
    using that by (auto simp: backoff_inv_def sys_finish_def tick_end_def NextBackoff_def Let_def)
  show "backoff_inv (sys_shutdown net s)" if "backoff_inv s" for s net
    using that by (auto simp: backoff_inv_def sys_shutdown_def Flush_def Let_def)
qed

text \<open>C33: however many posts fail, the backoff of the push loop never exceeds one interval, so that every
  tick takes the buffer and tries again: the counted-down backoff is always zero when the next one is
  computed from it, and the exponential growth of \<open>NextBackoff\<close> is never reached.\<close>

theorem push_retries_every_tick:
  assumes "push_reachable event_id endpoint has_trigger s" and "lc_buf (sy_cap s) \<noteq> []"
  shows "pv_backoff (sy_vars s) \<le> PushInterval \<and> sy_inflight (sys_tick s) = Some (lc_buf (sy_cap s))"
  using push_backoff_inv [OF assms(1)] assms(2)
  by (auto simp: backoff_inv_def sys_tick_def tick_begin_def Flush_def Let_def push_consts)

theorem push_retries_every_tick_witness: "sy_inflight (sys_tick push_example) = Some [''{'']"
proof -
  have "lc_buf (sy_cap push_example) = [''{'']"
    by (simp add: push_example_def sys_finish_def tick_end_def pushAll_def pushAll_loop.simps push_def
        sys_write_def sys_tick_def init_push_sys_def tick_begin_def init_push_vars_def Write_def Flush_def
        trim_space_brace maxBufferSize_def pushBatchLimit_def Let_def)
  with push_retries_every_tick [OF push_example_reachable] show ?thesis by simp
qed

subsection \<open>Progress\<close>

lemma pushAll_all_ok:
  assumes "\<And>i. \<exists>seen. net i = Response 200 seen"
  shows "pr_ok (pushAll net recs)"
proof -
  have ok: "push (net i) b \<noteq> (seen, False, logs)" for i b seen logs
    using assms [of i] by (auto simp: push_def)
  show ?thesis
    unfolding pushAll_def
    by (rule pushAll_loop_induct [where P = "\<lambda>i recs r res. pr_ok res"]) (use ok in auto)
qed

lemma sys_writes:
  "sy_delivered (fold (sys_write w) ps s) = sy_delivered s" "sy_inflight (fold (sys_write w) ps s) = sy_inflight s"
  by (induction ps arbitrary: s) (simp_all add: sys_write_def)

text \<open>C21: once SPAM answers, nothing that was captured before a tick is left behind: if no line was
  lost, a tick whose requests all succeed brings the acknowledged lines up to everything written
  before it, whatever is written meanwhile.\<close>

theorem push_tick_delivers_all:
  assumes "push_reachable event_id endpoint has_trigger s" "sy_inflight s = None" "\<not> sy_lost s"
    and "lc_buf (sy_cap s) \<noteq> []" and "\<forall>i. \<exists>seen. net i = Response 200 seen"
    and "sy_inflight (fold (sys_write w) ps (sys_tick s)) = Some recs"
  shows "sy_delivered (sys_finish event_id endpoint has_trigger net now now' recs
    (fold (sys_write w) ps (sys_tick s))) = sy_written s"
proof -
  have "pv_backoff (sy_vars s) \<in> {0, PushInterval}"
    using push_backoff_inv [OF assms(1)] by (simp add: backoff_inv_def)
  then have tick: "sys_tick s = s\<lparr>sy_vars := (sy_vars s)\<lparr>pv_backoff := 0\<rparr>,
      sy_cap := (sy_cap s)\<lparr>lc_buf := []\<rparr>, sy_inflight := Some (lc_buf (sy_cap s))\<rparr>"
    using assms(4) by (auto simp: sys_tick_def tick_begin_def Flush_def Let_def push_consts)
  then have recs: "recs = lc_buf (sy_cap s)" using assms(6) by (simp add: sys_writes)
  have "acked (pr_posts (pushAll net recs)) = recs"
    using pushAll_split [of net recs] pushAll_all_ok [of net recs] assms(5) by (simp add: pushAll_ok)
  then have "sy_delivered (sys_finish event_id endpoint has_trigger net now now' recs
      (fold (sys_write w) ps (sys_tick s))) = sy_delivered s @ lc_buf (sy_cap s)"
    by (simp add: sys_finish_def Let_def sys_writes tick recs)
  also have "\<dots> = sy_written s"
    using push_order_inv [OF assms(1)] assms(2,3) by (simp add: order_inv_def pending_def in_flight_def)
  finally show ?thesis .
qed

lemma one_line_reachable:
  "push_reachable event_id endpoint has_trigger (sys_write (\<lambda>p. (0, None)) ''{}'' init_push_sys)"
  by (rule after_step [OF at_start do_write])

theorem push_tick_delivers_all_witness:
  "sy_delivered (sys_finish (\<lambda>_. None) [] False (\<lambda>_. Response 200 0) 1 1 [''{}'']
     (fold (sys_write (\<lambda>p. (0, None))) [''{''] (sys_tick (sys_write (\<lambda>p. (0, None)) ''{}'' init_push_sys)))) = [''{}'']"
proof -
  let ?s = "sys_write (\<lambda>p. (0, None)) ''{}'' init_push_sys"
  have "sy_inflight ?s = None" "\<not> sy_lost ?s" "lc_buf (sy_cap ?s) \<noteq> []" "sy_written ?s = [''{}'']"
    by (simp_all add: sys_write_def init_push_sys_def Write_def captured_def trim_space_brace maxBufferSize_def)
  moreover have "\<forall>i. \<exists>seen. (\<lambda>_. Response 200 0) i = Response 200 seen" by simp
  moreover have "sy_inflight (fold (sys_write (\<lambda>p. (0, None))) [''{''] (sys_tick ?s)) = Some [''{}'']"
    using push_example_inflight by simp
  ultimately show ?thesis
    using push_tick_delivers_all [OF one_line_reachable, of "(\<lambda>_. Response 200 0)" "\<lambda>p. (0, None)" "[''{'']"
        "[''{}'']" "\<lambda>_. None" "[]" False 1 1] by simp
qed

subsection \<open>Snapshots triggered by acknowledgements\<close>

definition cooldown_inv :: "push_sys \<Rightarrow> bool" where
  "cooldown_inv s \<longleftrightarrow> sorted_wrt (\<lambda>a b. b - a \<ge> snapshotCooldown) (sy_fires s) \<and>
     (case pv_lastSnapshotAt (sy_vars s) of None \<Rightarrow> sy_fires s = []
      | Some t \<Rightarrow> t \<le> sy_now s \<and> (\<forall>f\<in>set (sy_fires s). f \<le> t))"

lemma push_cooldown_inv: "push_reachable event_id endpoint has_trigger s \<Longrightarrow> cooldown_inv s"
proof (erule push_invariant)
  show "cooldown_inv init_push_sys" by (simp add: cooldown_inv_def init_push_sys_def init_push_vars_def)
  show "cooldown_inv (sys_write out_write p s)" if "cooldown_inv s" for s out_write p
    using that by (simp add: cooldown_inv_def sys_write_def split: option.splits)
  show "cooldown_inv (sys_tick s)" if "cooldown_inv s" for s
  proof -
    obtain v cap recs where t: "tick_begin (sy_vars s) (sy_cap s) = (v, cap, recs)"
      by (cases "tick_begin (sy_vars s) (sy_cap s)")
    with that tick_begin_cases [OF t] show ?thesis by (simp add: cooldown_inv_def sys_tick_def split: option.splits)
  qed
  show "cooldown_inv (sys_shutdown net s)" if "cooldown_inv s" for s net
    using that by (simp add: cooldown_inv_def sys_shutdown_def Flush_def Let_def split: option.splits)
  show "cooldown_inv (sys_finish event_id endpoint has_trigger net now now' recs s)"
    if inv: "cooldown_inv s" and time: "sy_now s \<le> now" "now \<le> now'" for s recs net now now'
  proof -
    define r where "r = pushAll net recs"
    define t where "t = tick_end event_id endpoint has_trigger now now' recs r (sy_vars s) (sy_cap s)"
    let ?s = "sys_finish event_id endpoint has_trigger net now now' recs s"
    have fields: "sy_now ?s = now'" "sy_vars ?s = tk_vars t" "sy_fires ?s = sy_fires s @ (if tk_fire t then [now] else [])"
      by (simp_all add: sys_finish_def Let_def t_def r_def)
    show ?thesis
    proof (cases "tk_fire t")
      case True
      then have "pv_lastSnapshotAt (tk_vars t) = Some now'" "cooled_down (pv_lastSnapshotAt (sy_vars s)) now"
        by (auto simp: t_def tick_end_def Let_def split: if_splits)
      with True inv time show ?thesis
        by (fastforce simp: cooldown_inv_def fields sorted_wrt_append cooled_down_def split: option.splits)
    next
      case False
      then have "pv_lastSnapshotAt (tk_vars t) = pv_lastSnapshotAt (sy_vars s)"
        by (auto simp: t_def tick_end_def Let_def split: if_splits)
      with False inv time show ?thesis
        by (auto simp: cooldown_inv_def fields split: option.splits)
    qed
  qed
qed

text \<open>C22: any two snapshots that acknowledgements trigger are at least five minutes apart, however SPAM
  answers.\<close>

theorem push_snapshots_cooled_down:
  assumes "push_reachable event_id endpoint has_trigger s" and "i < j" and "j < length (sy_fires s)"
  shows "sy_fires s ! j - sy_fires s ! i \<ge> 5 * minute_ns"
  using push_cooldown_inv [OF assms(1)] assms(2,3)
  by (simp add: cooldown_inv_def sorted_wrt_iff_nth_less snapshotCooldown_def)

definition push_round :: "int \<Rightarrow> push_sys \<Rightarrow> push_sys" where
  "push_round t s = sys_finish (\<lambda>_. Some 1) [] True (\<lambda>_. Response 200 7) t t [''{}'']
     (sys_tick (sys_write (\<lambda>p. (0, None)) ''{}'' s))"

definition round_state :: "int list \<Rightarrow> push_sys" where
  "round_state ts = \<lparr>sy_cap = \<lparr>lc_Stdout = replicate (length ts) ''{}'', lc_buf = []\<rparr>,
     sy_vars = \<lparr>pv_backoff = 0, pv_lastPushedEventID = 1, pv_lastSnapshotAt = Some (last ts)\<rparr>, sy_inflight = None,
     sy_running = True, sy_now = last ts, sy_written = replicate (length ts) ''{}'',
     sy_delivered = replicate (length ts) ''{}'', sy_lost = False, sy_fires = ts\<rparr>"

lemmas round_defs = push_round_def round_state_def sys_finish_def sys_tick_def sys_write_def tick_begin_def
  tick_end_def Write_def Flush_def captured_def trim_space_brace maxBufferSize_def pushAll_def
  pushAll_loop.simps push_def pushBatchLimit_def cooled_down_def Let_def push_consts

lemma push_rounds: "push_round 0 init_push_sys = round_state [0]"
  "push_round (5 * minute_ns) (round_state [0]) = round_state [0, 5 * minute_ns]"
  by (simp_all add: round_defs init_push_sys_def init_push_vars_def)

lemma push_round_reachable:
  assumes "push_reachable (\<lambda>_. Some 1) [] True s" "sy_running s" "sy_inflight s = None" "sy_now s \<le> t"
    and "sy_inflight (sys_tick (sys_write (\<lambda>p. (0, None)) ''{}'' s)) = Some [''{}'']"
  shows "push_reachable (\<lambda>_. Some 1) [] True (push_round t s)"
  unfolding push_round_def
  by (rule after_step [OF after_step [OF after_step [OF assms(1) do_write] do_tick] do_finish])
    (use assms in \<open>simp_all add: sys_write_def sys_tick_def split: prod.split\<close>)

theorem push_snapshots_cooled_down_witness: "sy_fires (round_state [0, 5 * minute_ns]) ! 1 \<ge> 5 * minute_ns"
proof -
  have "push_reachable (\<lambda>_. Some 1) [] True (round_state [0])"
    unfolding push_rounds(1) [symmetric]
    by (rule push_round_reachable [OF at_start])
      (simp_all add: init_push_sys_def init_push_vars_def sys_tick_def sys_write_def tick_begin_def Write_def Flush_def
        trim_space_brace maxBufferSize_def)
  then have "push_reachable (\<lambda>_. Some 1) [] True (round_state [0, 5 * minute_ns])"
    unfolding push_rounds(2) [symmetric]
    by (rule push_round_reachable)
      (simp_all add: round_state_def sys_tick_def sys_write_def tick_begin_def Write_def Flush_def
        trim_space_brace maxBufferSize_def minute_ns_def second_ns_def)
  from push_snapshots_cooled_down [OF this, of 0 1] show ?thesis by (simp add: round_state_def)
qed

end
