(* ===== verification/Heartbeat.thy ===== *)
theory Heartbeat
  imports Event_Log
begin

section \<open>Heartbeats: push.go\<close>

text \<open>
  A loop posts a liveness ping at a fixed interval, backs off while SPAM cannot be reached and logs
  sparingly: an error for the first failure of an outage and one per hour after that, one line when
  contact is restored.  Durations are 64-bit nanosecond counts and wrap as in Go; times are integers.
\<close>

definition defaultHeartbeatInterval :: i64 where
  "defaultHeartbeatInterval = 300000000000"

definition maxHeartbeatBackoff :: i64 where
  "maxHeartbeatBackoff = 900000000000"

definition heartbeatReminderAfter :: int where
  "heartbeatReminderAfter = 1 * hour_ns"

subsection \<open>Intervals and backoff\<close>

definition resolveHeartbeatInterval ::
  "(string \<Rightarrow> i64 option) \<Rightarrow> (string \<Rightarrow> string) \<Rightarrow> collector \<Rightarrow> i64 \<times> collector" where
  "resolveHeartbeatInterval parse getenv c =
     (let raw = trim_space (getenv ''HEARTBEAT_INTERVAL'')
      in if raw = [] then (defaultHeartbeatInterval, c)
         else (case parse raw of
             Some d \<Rightarrow> if sint d \<le> 0
               then (defaultHeartbeatInterval,
                 Log_at LWarn ''heartbeat: invalid HEARTBEAT_INTERVAL, using default''
                   [(''value'', AStr raw), (''default'', AInt (sint defaultHeartbeatInterval))] c)
               else (d, c)
           | None \<Rightarrow> (defaultHeartbeatInterval,
               Log_at LWarn ''heartbeat: invalid HEARTBEAT_INTERVAL, using default''
                 [(''value'', AStr raw), (''default'', AInt (sint defaultHeartbeatInterval))] c)))"

fun backoff_loop :: "nat \<Rightarrow> i64 \<Rightarrow> i64" where
  "backoff_loop 0 d = d"
| "backoff_loop (Suc n) d =
     (let d = d * 2
      in if sint d \<ge> sint maxHeartbeatBackoff then maxHeartbeatBackoff else backoff_loop n d)"

definition nextHeartbeatBackoff :: "i64 \<Rightarrow> nat \<Rightarrow> i64" where
  "nextHeartbeatBackoff base consecutiveFailures = backoff_loop (consecutiveFailures - 1) base"

subsection \<open>The loop\<close>

text \<open>
  The outcome of a request as \<open>sendHeartbeat\<close> reports it: \<^const>\<open>None\<close>, or the error; a
  status outside 200 to 299 is one.
\<close>

datatype heartbeat_reply = BuildFailed string | TransportFailed string | Status int

definition sendHeartbeat :: "heartbeat_reply \<Rightarrow> string option" where
  "sendHeartbeat reply = (case reply of
       BuildFailed e \<Rightarrow> Some e
     | TransportFailed e \<Rightarrow> Some e
     | Status s \<Rightarrow> if s < 200 \<or> s \<ge> 300 then Some (''unexpected status '' @ itoa s) else None)"

record heartbeat =
  hb_consecutiveFailures :: nat
  hb_lastErrorLog :: "int option"
  hb_firstTick :: bool

definition init_heartbeat :: heartbeat where
  "init_heartbeat = \<lparr>hb_consecutiveFailures = 0, hb_lastErrorLog = None, hb_firstTick = True\<rparr>"

definition error_due :: "int option \<Rightarrow> int \<Rightarrow> bool" where
  "error_due since now = (case since of None \<Rightarrow> True | Some t \<Rightarrow> now - t \<ge> heartbeatReminderAfter)"

text \<open>
  One firing of the timer: the reply, the time of the reminder test and the time after logging.  The
  result has the new variables, the lines logged and the delay the timer is reset to.
\<close>

definition hb_tick ::
  "string \<Rightarrow> i64 \<Rightarrow> heartbeat_reply \<times> int \<times> int \<Rightarrow> heartbeat \<Rightarrow> heartbeat \<times> out list \<times> i64" where
  "hb_tick endpoint interval tick hb =
     (case tick of (reply, now, now') \<Rightarrow>
       (case sendHeartbeat reply of
          Some err \<Rightarrow>
            (let hb = hb\<lparr>hb_consecutiveFailures := hb_consecutiveFailures hb + 1\<rparr>;
                 due = (hb_consecutiveFailures hb = 1 \<or> error_due (hb_lastErrorLog hb) now);
                 hb' = (if due then hb\<lparr>hb_lastErrorLog := Some now'\<rparr> else hb)
             in (hb'\<lparr>hb_firstTick := False\<rparr>,
                 if due then [OLog LError ''heartbeat: unable to contact callcenter''
                   [(''endpoint'', AStr endpoint), (''err'', AStr err),
                    (''consecutive_failures'', AInt (int (hb_consecutiveFailures hb)))]] else [],
                 nextHeartbeatBackoff interval (hb_consecutiveFailures hb)))
        | None \<Rightarrow>
            (if hb_consecutiveFailures hb > 0
             then (hb\<lparr>hb_consecutiveFailures := 0, hb_lastErrorLog := None\<rparr>,
                   [OLog LInfo ''heartbeat: restored''
                     [(''endpoint'', AStr endpoint), (''after_failures'', AInt (int (hb_consecutiveFailures hb)))]],
                   interval)
             else if hb_firstTick hb
             then (hb\<lparr>hb_firstTick := False\<rparr>,
                   [OLog LInfo ''heartbeat: ok''
                     [(''endpoint'', AStr endpoint), (''interval'', AInt (sint interval))]], interval)
             else (hb, [], interval))))"

fun hb_run ::
  "string \<Rightarrow> i64 \<Rightarrow> (heartbeat_reply \<times> int \<times> int) list \<Rightarrow> heartbeat \<Rightarrow> heartbeat \<times> (out list \<times> i64) list" where
  "hb_run endpoint interval [] hb = (hb, [])"
| "hb_run endpoint interval (t # ts) hb =
     (let (hb, os, delay) = hb_tick endpoint interval t hb;
          (hb, rest) = hb_run endpoint interval ts hb
      in (hb, (os, delay) # rest))"

text \<open>
  The goroutine: \<open>marshal\<close> is the error of encoding the body, if there is one; the ticks end
  where the context is done.  The result has the delays of the timer, the first of them zero.
\<close>

definition HeartbeatLoop ::
  "(string \<Rightarrow> i64 option) \<Rightarrow> (string \<Rightarrow> string) \<Rightarrow> string \<Rightarrow> string \<Rightarrow> string option \<Rightarrow>
   (heartbeat_reply \<times> int \<times> int) list \<Rightarrow> collector \<Rightarrow> i64 list \<times> collector" where
  "HeartbeatLoop parse getenv endpoint clusterID marshal ticks c =
     (if clusterID = [] then ([], Log_at LWarn ''heartbeat: cluster_id empty, skipping loop'' [] c)
      else (case marshal of
          Some err \<Rightarrow> ([], Log_at LError ''heartbeat: marshal'' [(''err'', AStr err)] c)
        | None \<Rightarrow>
            (let (interval, c) = resolveHeartbeatInterval parse getenv c;
                 (hb, results) = hb_run endpoint interval ticks init_heartbeat
             in (0 # map snd results, log_outs (concat (map fst results)) c))))"

subsection \<open>Backoff in closed form\<close>

lemma sint_double:
  fixes d :: i64
  assumes "0 < sint d" "sint d < 2 ^ 62"
  shows "sint (d * 2) = 2 * sint d"
proof -
  have "sint (d * 2) = signed_take_bit 63 (sint d * 2)" by (simp add: sint_word_mult)
  also have "\<dots> = sint d * 2" using assms by (intro signed_take_bit_int_eq_self) simp_all
  finally show ?thesis by simp
qed

lemma backoff_loop_closed:
  assumes "0 < sint d" "sint d < 2 ^ 62"
  shows "sint (backoff_loop (Suc n) d) = min (sint d * 2 ^ Suc n) (sint maxHeartbeatBackoff)"
  using assms
proof (induction n arbitrary: d)
  case 0
  then show ?case by (simp add: sint_double Let_def min_def)
next
  case (Suc n)
  show ?case
  proof (cases "2 * sint d \<ge> sint maxHeartbeatBackoff")
    case True
    have "2 * sint d * 1 \<le> 2 * sint d * 2 ^ Suc n" using Suc.prems by (intro mult_left_mono one_le_power) simp_all
    with True have "sint maxHeartbeatBackoff \<le> sint d * 2 ^ Suc (Suc n)" by (simp add: ac_simps)
    moreover have "backoff_loop (Suc (Suc n)) d = maxHeartbeatBackoff"
      using True Suc.prems by (simp add: sint_double Let_def)
    ultimately show ?thesis by simp
  next
    case False
    then have small: "0 < sint (d * 2)" "sint (d * 2) < 2 ^ 62"
      using Suc.prems by (simp_all add: sint_double maxHeartbeatBackoff_def)
    have "backoff_loop (Suc (Suc n)) d = backoff_loop (Suc n) (d * 2)"
      using False Suc.prems by (simp add: sint_double Let_def del: backoff_loop.simps(2)) (subst backoff_loop.simps(2), simp add: sint_double Let_def)
    with Suc.IH [OF small] Suc.prems show ?thesis by (simp add: sint_double ac_simps)
  qed
qed

text \<open>C35: the wait after the first failure is the interval itself, also when it is above the cap; after the
  n-th failure in a row, from the second on, it is the interval doubled n-1 times, capped at 15 minutes;
  the doubling cannot overflow for intervals below 2^62 nanoseconds (146
  years).\<close>

theorem heartbeat_backoff_closed:
  assumes "0 < sint base" and "sint base < 2 ^ 62"
  shows "sint (nextHeartbeatBackoff base n) =
    (if n \<le> 1 then sint base else min (sint base * 2 ^ (n - 1)) (15 * minute_ns))"
proof (cases "n \<le> 1")
  case True
  then show ?thesis by (simp add: nextHeartbeatBackoff_def)
next
  case False
  then obtain m where "n = Suc (Suc m)" by (metis One_nat_def le_SucI not0_implies_Suc le_0_eq not_less_eq_eq)
  then show ?thesis
    using backoff_loop_closed [OF assms, of m]
    by (simp add: nextHeartbeatBackoff_def maxHeartbeatBackoff_def duration_defs del: backoff_loop.simps)
qed

theorem heartbeat_backoff_closed_witness:
  "sint (nextHeartbeatBackoff 60000000000 3) = 4 * minute_ns \<and>
   sint (nextHeartbeatBackoff 60000000000 30) = 15 * minute_ns"
  using heartbeat_backoff_closed [of 60000000000 3] heartbeat_backoff_closed [of 60000000000 30]
  by (simp add: duration_defs)

text \<open>
  Two edges of the code.  An interval above the cap is not capped by the first failure but by the
  second, so the waits get shorter as the outage goes on; and an interval of 2^62 nanoseconds
  doubles to a negative number and then to zero.
\<close>

lemma backoff_above_cap:
  "nextHeartbeatBackoff 3600000000000 1 = 3600000000000" "nextHeartbeatBackoff 3600000000000 2 = maxHeartbeatBackoff"
  by (simp_all add: nextHeartbeatBackoff_def maxHeartbeatBackoff_def numeral_2_eq_2 Let_def)

lemma backoff_wraps: "nextHeartbeatBackoff 4611686018427387904 3 = 0"
proof -
  have "nextHeartbeatBackoff 4611686018427387904 3 = backoff_loop (Suc (Suc 0)) 4611686018427387904"
    by (simp only: nextHeartbeatBackoff_def numeral_3_eq_3 diff_Suc_1)
  then show ?thesis by (simp add: maxHeartbeatBackoff_def Let_def)
qed

subsection \<open>What an outage logs\<close>

text \<open>An outage: consecutive failures, each with the times of its reminder test and after it.\<close>

definition tick_now :: "heartbeat_reply \<times> int \<times> int \<Rightarrow> int" where
  "tick_now t = fst (snd t)"

definition tick_after :: "heartbeat_reply \<times> int \<times> int \<Rightarrow> int" where
  "tick_after t = snd (snd t)"

definition failures :: "(heartbeat_reply \<times> int \<times> int) list \<Rightarrow> bool" where
  "failures ts \<longleftrightarrow> list_all (\<lambda>t. sendHeartbeat (fst t) \<noteq> None \<and> tick_now t \<le> tick_after t) ts \<and>
     sorted_wrt (\<lambda>t u. tick_after t \<le> tick_now u) ts"

definition error_logged :: "(out list \<times> i64) list \<Rightarrow> nat \<Rightarrow> bool" where
  "error_logged results i \<longleftrightarrow> fst (results ! i) \<noteq> []"

lemma hb_run_length [simp]: "length (snd (hb_run endpoint interval ts hb)) = length ts"
  by (induction ts arbitrary: hb) (simp_all add: case_prod_unfold Let_def)

lemma hb_fail:
  assumes "sendHeartbeat reply = Some err"
  shows "hb_tick endpoint interval (reply, now, now') hb =
    (let n = hb_consecutiveFailures hb + 1; due = (n = 1 \<or> error_due (hb_lastErrorLog hb) now)
     in (\<lparr>hb_consecutiveFailures = n, hb_lastErrorLog = (if due then Some now' else hb_lastErrorLog hb),
          hb_firstTick = False\<rparr>,
         if due then [OLog LError ''heartbeat: unable to contact callcenter''
           [(''endpoint'', AStr endpoint), (''err'', AStr err), (''consecutive_failures'', AInt (int n))]] else [],
         nextHeartbeatBackoff interval n))"
  using assms by (cases hb) (simp add: hb_tick_def Let_def)

lemma hb_run_snoc:
  "hb_run endpoint interval (ts @ [t]) hb =
     (let (hb', res) = hb_run endpoint interval ts hb; (hb'', os, delay) = hb_tick endpoint interval t hb'
      in (hb'', res @ [(os, delay)]))"
  by (induction ts arbitrary: hb) (simp_all add: Let_def split: prod.split)

lemma failures_snoc: "failures (ts @ [t]) \<Longrightarrow> failures ts \<and> sendHeartbeat (fst t) \<noteq> None \<and> tick_now t \<le> tick_after t \<and>
    (\<forall>i<length ts. tick_after (ts ! i) \<le> tick_now t)"
  by (auto simp: failures_def sorted_wrt_append)

text \<open>What holds after any prefix of an outage, \<open>k\<close> being the last tick that logged.\<close>

definition outage_inv :: "(heartbeat_reply \<times> int \<times> int) list \<Rightarrow> (out list \<times> i64) list \<Rightarrow> heartbeat \<Rightarrow> nat \<Rightarrow> bool" where
  "outage_inv ts res hb k \<longleftrightarrow> k < length ts \<and> length res = length ts \<and> hb_consecutiveFailures hb = length ts \<and>
     \<not> hb_firstTick hb \<and> hb_lastErrorLog hb = Some (tick_after (ts ! k)) \<and> error_logged res 0 \<and> error_logged res k \<and>
     (\<forall>i<length ts. k < i \<longrightarrow> \<not> error_logged res i) \<and>
     (\<forall>i j. i < j \<longrightarrow> j < length ts \<longrightarrow> error_logged res i \<longrightarrow> error_logged res j \<longrightarrow>
        tick_now (ts ! j) - tick_after (ts ! i) \<ge> heartbeatReminderAfter) \<and>
     (\<forall>i<length ts. error_logged res i \<or>
        (\<exists>j<i. error_logged res j \<and> tick_now (ts ! i) - tick_after (ts ! j) < heartbeatReminderAfter))"

lemma error_logged_append: "i < length res \<Longrightarrow> error_logged (res @ res2) i = error_logged res i"
  by (simp add: error_logged_def nth_append)

lemma outage_inv_run:
  assumes "failures ts" "ts \<noteq> []" "hb_consecutiveFailures hb = 0"
  shows "\<exists>k. outage_inv ts (snd (hb_run endpoint interval ts hb)) (fst (hb_run endpoint interval ts hb)) k"
  using assms(1,2)
proof (induction ts rule: rev_induct)
  case (snoc t ts)
  obtain reply now now' where t: "t = (reply, now, now')" by (cases t)
  from failures_snoc [OF snoc.prems(1)] obtain err where fails: "failures ts" "sendHeartbeat reply = Some err"
    "now \<le> now'" "\<forall>i<length ts. tick_after (ts ! i) \<le> now" by (auto simp: t tick_now_def tick_after_def)
  obtain hb' res where run: "hb_run endpoint interval ts hb = (hb', res)" by (cases "hb_run endpoint interval ts hb")
  have len: "length res = length ts" using hb_run_length [of endpoint interval ts hb] run by simp
  define n where "n = hb_consecutiveFailures hb' + 1"
  define due where "due = (n = 1 \<or> error_due (hb_lastErrorLog hb') now)"
  define hb'' where "hb'' = \<lparr>hb_consecutiveFailures = n,
    hb_lastErrorLog = (if due then Some now' else hb_lastErrorLog hb'), hb_firstTick = False\<rparr>"
  obtain os delay where tick: "hb_tick endpoint interval t hb' = (hb'', os, delay)" "os \<noteq> [] \<longleftrightarrow> due"
    by (simp add: t hb_fail [OF fails(2)] Let_def n_def due_def hb''_def)
  have new: "hb_run endpoint interval (ts @ [t]) hb = (hb'', res @ [(os, delay)])"
    by (simp add: hb_run_snoc run tick(1))
  have at_end: "error_logged (res @ [(os, delay)]) (length ts) \<longleftrightarrow> due"
    using tick(2) len by (simp add: error_logged_def nth_append)
  show ?case
  proof (cases "ts = []")
    case True
    then have "hb' = hb" using run by simp
    then have "due" "n = 1" using assms(3) by (simp_all add: due_def n_def)
    then have "outage_inv (ts @ [t]) (res @ [(os, delay)]) hb'' 0"
      using True at_end len by (auto simp: outage_inv_def hb''_def t tick_after_def)
    then show ?thesis unfolding new by auto
  next
    case False
    with snoc.IH fails(1) run obtain k where inv: "outage_inv ts res hb' k" by auto
    then have k: "k < length ts" "n = Suc (length ts)" "hb_lastErrorLog hb' = Some (tick_after (ts ! k))"
      by (simp_all add: outage_inv_def n_def)
    with False have due: "due \<longleftrightarrow> now - tick_after (ts ! k) \<ge> heartbeatReminderAfter"
      by (simp add: due_def error_due_def)
    let ?ts = "ts @ [t]" and ?res = "res @ [(os, delay)]"
    have E: "error_logged ?res i \<longleftrightarrow> error_logged res i" "?ts ! i = ts ! i" if "i < length ts" for i
      using that len by (simp_all add: error_logged_append nth_append)
    have times: "tick_now t = now" "tick_after t = now'"
      by (simp_all add: t tick_now_def tick_after_def)
    have latest: "tick_after (ts ! i) \<le> tick_after (ts ! k)" if "i < length ts" "error_logged res i" for i
    proof (cases "i = k")
      case False
      with inv that have "i < k" by (auto simp: outage_inv_def)
      with fails(1) k(1) have "tick_after (ts ! i) \<le> tick_now (ts ! k) \<and> tick_now (ts ! k) \<le> tick_after (ts ! k)"
        by (auto simp: failures_def sorted_wrt_iff_nth_less list_all_length)
      then show ?thesis by simp
    qed simp
    have gaps: "tick_now (?ts ! j) - tick_after (?ts ! i) \<ge> heartbeatReminderAfter"
      if "i < j" "j \<le> length ts" "error_logged ?res i" "error_logged ?res j" for i j
    proof (cases "j = length ts")
      case True
      with that at_end due latest [of i] show ?thesis by (simp add: E times)
    next
      case False
      with that inv show ?thesis by (simp add: E outage_inv_def)
    qed
    have cover: "error_logged ?res i \<or> (\<exists>j<i. error_logged ?res j \<and>
        tick_now (?ts ! i) - tick_after (?ts ! j) < heartbeatReminderAfter)" if "i \<le> length ts" for i
    proof (cases "i = length ts")
      case True
      have "error_logged ?res k" using inv k(1) by (simp add: E outage_inv_def)
      with True k(1) at_end due show ?thesis by (auto simp: E times not_le)
    next
      case False
      with that have i: "i < length ts" by simp
      with inv consider "error_logged res i" | j where "j < i" "error_logged res j"
        "tick_now (ts ! i) - tick_after (ts ! j) < heartbeatReminderAfter" by (auto simp: outage_inv_def)
      then show ?thesis by cases (use i in \<open>auto simp: E\<close>)
    qed
    have first: "error_logged ?res 0" using inv False by (simp add: E outage_inv_def)
    have silent: "\<not> error_logged ?res i" if "k < i" "i \<le> length ts" "\<not> due" for i
      using that inv at_end by (cases "i = length ts") (auto simp: E outage_inv_def)
    have "outage_inv ?ts ?res hb'' (if due then length ts else k)"
      unfolding outage_inv_def
      using inv k at_end first gaps cover silent len
      by (auto simp: hb''_def E times less_Suc_eq_le outage_inv_def less_Suc_eq)
    then show ?thesis unfolding new by auto
  qed
qed simp

text \<open>C23: in an outage of any length the first failure is logged, two logged errors are at least an
  hour apart, and a failure stays silent only within an hour of a logged one; the first success after
  it logs exactly one line, with the number of failures, and resets the loop for the next outage.\<close>

theorem outage_logging:
  assumes "failures ts" "ts \<noteq> []" "hb_consecutiveFailures hb = 0"
    and "hb_run endpoint interval ts hb = (hb', res)" and "200 \<le> status" "status < 300"
  shows "error_logged res 0 \<and>
    (\<forall>i j. i < j \<longrightarrow> j < length ts \<longrightarrow> error_logged res i \<longrightarrow> error_logged res j \<longrightarrow>
       tick_now (ts ! j) - tick_after (ts ! i) \<ge> hour_ns) \<and>
    (\<forall>i<length ts. error_logged res i \<or>
       (\<exists>j<i. error_logged res j \<and> tick_now (ts ! i) - tick_after (ts ! j) < hour_ns)) \<and>
    hb_tick endpoint interval (Status status, now, now') hb' =
      (\<lparr>hb_consecutiveFailures = 0, hb_lastErrorLog = None, hb_firstTick = False\<rparr>,
       [OLog LInfo ''heartbeat: restored''
         [(''endpoint'', AStr endpoint), (''after_failures'', AInt (int (length ts)))]], interval)"
proof -
  obtain k where inv: "outage_inv ts res hb' k"
    using outage_inv_run [OF assms(1-3), of endpoint interval] assms(4) by auto
  then have "hb_tick endpoint interval (Status status, now, now') hb' =
      (\<lparr>hb_consecutiveFailures = 0, hb_lastErrorLog = None, hb_firstTick = False\<rparr>,
       [OLog LInfo ''heartbeat: restored''
         [(''endpoint'', AStr endpoint), (''after_failures'', AInt (int (length ts)))]], interval)"
    using assms(2,5,6) by (cases hb') (auto simp: outage_inv_def hb_tick_def sendHeartbeat_def)
  with inv show ?thesis unfolding outage_inv_def heartbeatReminderAfter_def by simp
qed

theorem outage_logging_witness:
  "snd (snd (hb_tick ''http://spam'' 60000000000 (Status 204, 7200000000000, 7200000000000)
     (fst (hb_run ''http://spam'' 60000000000
       [(TransportFailed ''refused'', 0, 1), (Status 503, 3600000000000, 3600000000000)] init_heartbeat)))) = 60000000000"
proof -
  let ?ts = "[(TransportFailed ''refused'', 0, 1), (Status 503, 3600000000000, 3600000000000)]"
  have "failures ?ts" by (simp add: failures_def sendHeartbeat_def tick_now_def tick_after_def)
  moreover have "hb_consecutiveFailures init_heartbeat = 0" by (simp add: init_heartbeat_def)
  moreover obtain hb' res where run: "hb_run ''http://spam'' 60000000000 ?ts init_heartbeat = (hb', res)"
    by (cases "hb_run ''http://spam'' 60000000000 ?ts init_heartbeat")
  ultimately have "hb_tick ''http://spam'' 60000000000 (Status 204, 7200000000000, 7200000000000) hb' =
      (\<lparr>hb_consecutiveFailures = 0, hb_lastErrorLog = None, hb_firstTick = False\<rparr>,
       [OLog LInfo ''heartbeat: restored'' [(''endpoint'', AStr ''http://spam''), (''after_failures'', AInt (int (length ?ts)))]],
       60000000000)"
    using outage_logging [of ?ts init_heartbeat "''http://spam''" 60000000000 hb' res 204 7200000000000 7200000000000]
    by simp
  then show ?thesis by (simp add: run del: hb_run.simps)
qed

end
