(* ===== verification/Config.thy ===== *)
theory Config
  imports Event_Log Complex_Main
begin

section \<open>Settings from the environment: main.go\<close>

text \<open>\<open>getenv\<close> is \<^verbatim>\<open>os.Getenv\<close>: the empty string for an unset variable.\<close>

definition resolveClusterName :: "(string \<Rightarrow> string) \<Rightarrow> string \<Rightarrow> string" where
  "resolveClusterName getenv rorName = (if rorName \<noteq> [] then rorName else getenv ''CLUSTER_NAME'')"

text \<open>
  The thunk reads the UID of the kube-system namespace; the result says whether it was called.
\<close>

definition resolveClusterID :: "(string \<Rightarrow> string) \<Rightarrow> (unit \<Rightarrow> string) \<Rightarrow> string \<times> bool" where
  "resolveClusterID getenv kubeSystemUID =
     (let v = trim_space (getenv ''CLUSTER_ID'')
      in if v \<noteq> [] then (v, False) else (kubeSystemUID (), True))"

definition resolveEnvironment :: "(string \<Rightarrow> string) \<Rightarrow> string \<Rightarrow> string" where
  "resolveEnvironment getenv rorEnv = (if rorEnv \<noteq> [] then rorEnv else getenv ''ENVIRONMENT'')"

subsection \<open>Integers\<close>

text \<open>
  \<^verbatim>\<open>strconv.Atoi\<close>: an optional sign and decimal digits, at least one, within 64 bits;
  \<^const>\<open>None\<close> stands for either error.
\<close>

definition digit_value :: "char \<Rightarrow> int option" where
  "digit_value ch = (let n = of_char ch :: nat in if 48 \<le> n \<and> n \<le> 57 then Some (int n - 48) else None)"

fun digits_value :: "string \<Rightarrow> int \<Rightarrow> int option" where
  "digits_value [] acc = Some acc"
| "digits_value (ch # s) acc =
     (case digit_value ch of None \<Rightarrow> None | Some d \<Rightarrow> digits_value s (10 * acc + d))"

definition atoi :: "string \<Rightarrow> int option" where
  "atoi s =
     (let neg = (s \<noteq> [] \<and> hd s = CHR ''-'');
          ds = (if s \<noteq> [] \<and> (hd s = CHR ''-'' \<or> hd s = CHR ''+'') then tl s else s)
      in if ds = [] then None
         else (case digits_value ds 0 of None \<Rightarrow> None
           | Some n \<Rightarrow> let v = (if neg then - n else n)
               in if - (2 ^ 63) \<le> v \<and> v < 2 ^ 63 then Some v else None))"

definition envInt :: "(string \<Rightarrow> string) \<Rightarrow> string \<Rightarrow> int \<Rightarrow> collector \<Rightarrow> int \<times> collector" where
  "envInt getenv name def c =
     (let raw = trim_space (getenv name)
      in if raw = [] then (def, c)
         else (case atoi raw of
             Some v \<Rightarrow> if v \<le> 0
               then (def, Log_at LWarn ''invalid env override, using default''
                 [(''name'', AStr name), (''value'', AStr raw), (''default'', AInt def)] c)
               else (v, c)
           | None \<Rightarrow> (def, Log_at LWarn ''invalid env override, using default''
               [(''name'', AStr name), (''value'', AStr raw), (''default'', AInt def)] c)))"

subsection \<open>Floats\<close>

text \<open>
  A Go float: not a number, an infinity (of the sign given), or a finite value.  \<open>parse\<close> is
  \<^verbatim>\<open>strconv.ParseFloat\<close> at 32 bits; like it, it may return any of the three.
  \<open>render\<close> is the rendering of the default in the log line.
\<close>

datatype go_float = NaN | Infinite bool | Finite rat

definition float_le_zero :: "go_float \<Rightarrow> bool" where
  "float_le_zero v = (case v of NaN \<Rightarrow> False | Infinite neg \<Rightarrow> neg | Finite q \<Rightarrow> q \<le> 0)"

definition envFloat32 ::
  "(string \<Rightarrow> go_float option) \<Rightarrow> (go_float \<Rightarrow> aval) \<Rightarrow> (string \<Rightarrow> string) \<Rightarrow> string \<Rightarrow> go_float \<Rightarrow>
   collector \<Rightarrow> go_float \<times> collector" where
  "envFloat32 parse render getenv name def c =
     (let raw = trim_space (getenv name)
      in if raw = [] then (def, c)
         else (case parse raw of
             Some v \<Rightarrow> if float_le_zero v
               then (def, Log_at LWarn ''invalid env override, using default''
                 [(''name'', AStr name), (''value'', AStr raw), (''default'', render def)] c)
               else (v, c)
           | None \<Rightarrow> (def, Log_at LWarn ''invalid env override, using default''
               [(''name'', AStr name), (''value'', AStr raw), (''default'', render def)] c)))"

subsection \<open>What the settings can be\<close>

text \<open>Decimal integers by place value, the reference for the parser.\<close>

definition is_digit :: "char \<Rightarrow> bool" where
  "is_digit ch = (ch \<in> set ''0123456789'')"

definition digit_of :: "char \<Rightarrow> int" where
  "digit_of ch = int (of_char ch) - 48"

definition place_value :: "string \<Rightarrow> int" where
  "place_value ds = (\<Sum>i<length ds. digit_of (ds ! i) * 10 ^ (length ds - 1 - i))"

definition decimal :: "string \<Rightarrow> int option" where
  "decimal s =
     (let ds = (if s \<noteq> [] \<and> hd s \<in> set ''+-'' then tl s else s)
      in if ds \<noteq> [] \<and> list_all is_digit ds
         then Some (if hd s = CHR ''-'' then - place_value ds else place_value ds) else None)"

lemma is_digit_code: "is_digit ch \<longleftrightarrow> 48 \<le> (of_char ch :: nat) \<and> (of_char ch :: nat) \<le> 57"
proof
  assume "is_digit ch"
  then show "48 \<le> (of_char ch :: nat) \<and> (of_char ch :: nat) \<le> 57" by (auto simp: is_digit_def)
next
  assume "48 \<le> (of_char ch :: nat) \<and> (of_char ch :: nat) \<le> 57"
  then have "(of_char ch :: nat) \<in> {48, 49, 50, 51, 52, 53, 54, 55, 56, 57}"
    unfolding insert_iff empty_iff by presburger
  then have "ch \<in> char_of ` {48, 49, 50, 51, 52, 53, 54, 55, 56, 57 :: nat}" by (metis char_of_char imageI)
  moreover have "list_all is_digit (map char_of [48, 49, 50, 51, 52, 53, 54, 55, 56, 57 :: nat])"
    by code_simp
  ultimately show "is_digit ch" by auto
qed

lemma digit_value_iff: "digit_value ch = (if is_digit ch then Some (digit_of ch) else None)"
  by (simp add: digit_value_def is_digit_code digit_of_def Let_def)

lemma place_value_Cons: "place_value (d # ds) = digit_of d * 10 ^ length ds + place_value ds"
  by (simp add: place_value_def sum.lessThan_Suc_shift del: sum.lessThan_Suc)

lemma digits_value_place:
  "digits_value ds acc = (if list_all is_digit ds then Some (acc * 10 ^ length ds + place_value ds) else None)"
proof (induction ds arbitrary: acc)
  case Nil
  then show ?case by (simp add: place_value_def)
next
  case (Cons d ds)
  then show ?case
    by (simp add: digit_value_iff place_value_Cons algebra_simps)
qed

lemma atoi_decimal:
  "atoi s = (case decimal s of Some v \<Rightarrow> if - (2 ^ 63) \<le> v \<and> v < 2 ^ 63 then Some v else None | None \<Rightarrow> None)"
  by (cases s) (auto simp: atoi_def decimal_def digits_value_place Let_def)

text \<open>C39: the setting is read exactly when the variable, trimmed, is a decimal integer with an optional sign
  whose value is positive and fits in 64 bits; an unset or blank variable gives the default in silence,
  any other text the default and one warning with the variable's name, its text and the default.\<close>

theorem env_int_exact:
  "envInt getenv name def c =
     (let raw = trim_space (getenv name);
          fallback = (def, log_outs [OLog LWarn ''invalid env override, using default''
            [(''name'', AStr name), (''value'', AStr raw), (''default'', AInt def)]] c)
      in if raw = [] then (def, c)
         else (case decimal raw of
             Some v \<Rightarrow> if 0 < v \<and> v < 2 ^ 63 then (v, c) else fallback
           | None \<Rightarrow> fallback))"
  by (auto simp: envInt_def atoi_decimal log_outs_Cons Let_def split: option.split)

lemma decimal_cases:
  "decimal ''25'' = Some 25" "decimal ''+7'' = Some 7" "decimal ''-3'' = Some (-3)" "decimal ''1e3'' = None"
  "decimal ''+'' = None"
  by code_simp+

text \<open>
  The float setting is guarded by the same comparison, which a NaN passes: the value read is then
  the setting, although it is not positive.
\<close>

lemma nan_is_accepted:
  "trim_space (getenv name) \<noteq> [] \<Longrightarrow> parse (trim_space (getenv name)) = Some NaN \<Longrightarrow>
   envFloat32 parse render getenv name def c = (NaN, c)"
  by (simp add: envFloat32_def float_le_zero_def)

lemma env_float_positive:
  assumes "float_le_zero def = False" "\<And>s. parse s \<noteq> Some NaN"
  shows "\<not> float_le_zero (fst (envFloat32 parse render getenv name def c))"
  using assms by (auto simp: envFloat32_def Let_def split: option.split)

end
