(* ===== verification/Ror.thy ===== *)
theory Ror
  imports Config
begin

section \<open>The cluster's ROR identity: rorself.go\<close>

text \<open>
  The agent asks the ROR service who the cluster is, in two calls: one for the identifier the API key
  is bound to, one for the slug, name and environment behind it.  The services are parameters: what
  they answer is the record \<open>ror_world\<close>, one per round of the refresh loop, and no law is
  assumed of it.
\<close>

subsection \<open>Data\<close>

record rorIdentity =
  ror_UID :: string
  ror_Slug :: string
  ror_Name :: string
  ror_Env :: string

definition no_identity :: rorIdentity where
  "no_identity = \<lparr>ror_UID = [], ror_Slug = [], ror_Name = [], ror_Env = []\<rparr>"

record http_request =
  req_url :: string
  req_api_key :: string
  req_accept :: string

datatype http_reply =
    RequestError string
  | TransportError string
  | Response int string

record cluster_reply =
  reply_id :: string
  reply_name :: string
  reply_env :: string

text \<open>
  What the process outside answers: the typed client's \<^verbatim>\<open>Self().Get\<close> for an endpoint and a key
  (the identity type and user name, or an error), the HTTP client, the JSON decoder on a body, the
  secrets by namespace and name (the data in the order the map is walked), and the constant of the
  client library that names a cluster identity.
\<close>

record ror_world =
  self_get :: "string \<Rightarrow> string \<Rightarrow> string + (string \<times> string)"
  http_do :: "http_request \<Rightarrow> http_reply"
  decode :: "string \<Rightarrow> string + cluster_reply"
  secret_get :: "string \<Rightarrow> string \<Rightarrow> string + (string \<times> string) list"
  cluster_type :: string

definition rorEndpoint :: "(string \<Rightarrow> string) \<Rightarrow> string" where
  "rorEndpoint getenv = trim_space (getenv ''ROR_API_ENDPOINT'')"

definition defaultRorRefreshInterval :: int where
  "defaultRorRefreshInterval = 1 * hour_ns"

definition rorRetryInterval :: int where
  "rorRetryInterval = 10 * minute_ns"

subsection \<open>The identity attributes\<close>

definition clusterAttrSet :: "string \<Rightarrow> string \<Rightarrow> string \<Rightarrow> string \<Rightarrow> string \<Rightarrow> rorIdentity \<Rightarrow> attr list" where
  "clusterAttrSet version commit clusterName clusterID environment ror =
     (let attrs = [];
          attrs = (if clusterName \<noteq> [] then attrs @ [(''cluster'', AStr clusterName)] else attrs);
          attrs = (if clusterID \<noteq> [] then attrs @ [(''cluster_id'', AStr clusterID)] else attrs);
          attrs = (if environment \<noteq> [] then attrs @ [(''environment'', AStr environment)] else attrs);
          attrs = (if ror_UID ror \<noteq> [] then attrs @ [(''ror_metadata'', AObj
              [(''cluster_id'', AStr (ror_Slug ror)), (''cluster_uid'', AStr (ror_UID ror)),
               (''cluster_name'', AStr (ror_Name ror)), (''env'', AStr (ror_Env ror))])] else attrs)
      in attrs @ [(''version'', AStr version), (''commit'', AStr commit)])"

subsection \<open>The API key\<close>

definition secretKeys :: "(string \<times> string) list \<Rightarrow> string list" where
  "secretKeys data = map fst data"

definition resolveRorApiKey ::
  "(string \<Rightarrow> string) \<Rightarrow> ror_world \<Rightarrow> collector \<Rightarrow> string \<times> collector" where
  "resolveRorApiKey getenv w c =
     (let v = trim_space (getenv ''ROR_API_KEY'')
      in if v \<noteq> [] then (v, c)
         else
           (let ns = trim_space (getenv ''ROR_API_KEY_SECRET_NAMESPACE'');
                name = trim_space (getenv ''ROR_API_KEY_SECRET_NAME'');
                key = trim_space (getenv ''ROR_API_KEY_SECRET_KEY'')
            in if ns = [] \<or> name = [] \<or> key = [] then ([], c)
               else (case secret_get w ns name of
                   Inl err \<Rightarrow> ([], Log_at LWarn ''ror apikey secret read failed''
                     [(''ns'', AStr ns), (''name'', AStr name), (''err'', AStr err)] c)
                 | Inr data \<Rightarrow>
                     (case map_of data key of
                        Some raw \<Rightarrow>
                          if raw = [] then ([], Log_at LWarn ''ror apikey secret has no value at key''
                            [(''ns'', AStr ns), (''name'', AStr name), (''key'', AStr key),
                             (''keys_present'', str_list (secretKeys data))] c)
                          else (trim_space raw, c)
                      | None \<Rightarrow> ([], Log_at LWarn ''ror apikey secret has no value at key''
                          [(''ns'', AStr ns), (''name'', AStr name), (''key'', AStr key),
                           (''keys_present'', str_list (secretKeys data))] c)))))"

subsection \<open>The two lookups\<close>

definition rorSelfLookup :: "ror_world \<Rightarrow> string \<Rightarrow> string \<Rightarrow> collector \<Rightarrow> string \<times> collector" where
  "rorSelfLookup w endpoint apikey c =
     (case self_get w endpoint apikey of
        Inl err \<Rightarrow> ([], Log_at LWarn ''ror self lookup failed'' [(''err'', AStr err)] c)
      | Inr (typ, user) \<Rightarrow>
          if typ \<noteq> cluster_type w
          then ([], Log_at LWarn ''ror apikey is not bound to a cluster identity'' [(''type'', AStr typ)] c)
          else (trim_space user, c))"

text \<open>The text appended is the ellipsis, three bytes.\<close>

definition truncate :: "string \<Rightarrow> nat \<Rightarrow> string" where
  "truncate s n = (if length s \<le> n then s else take n s @ [CHR 0xE2, CHR 0x80, CHR 0xA6])"

text \<open>A body is read to 16384 bytes and a read error is ignored; \<^const>\<open>take\<close> is the limited reader.\<close>

definition rorClusterLookup ::
  "ror_world \<Rightarrow> string \<Rightarrow> string \<Rightarrow> string \<Rightarrow> collector \<Rightarrow> (string \<times> string \<times> string) \<times> collector" where
  "rorClusterLookup w endpoint apikey ident c =
     (let url = trim_right endpoint ''/'' @ ''/v1/clusters/'' @ ident
      in case http_do w \<lparr>req_url = url, req_api_key = apikey, req_accept = ''application/json''\<rparr> of
           RequestError err \<Rightarrow>
             (([], [], []), Log_at LWarn ''ror cluster fetch build request failed'' [(''err'', AStr err)] c)
         | TransportError err \<Rightarrow>
             (([], [], []), Log_at LWarn ''ror cluster fetch failed'' [(''url'', AStr url), (''err'', AStr err)] c)
         | Response status full \<Rightarrow>
             (let body = take 16384 full
              in if status \<ge> 300
                 then (([], [], []), Log_at LWarn ''ror cluster fetch non-2xx''
                   [(''url'', AStr url), (''status'', AInt status), (''body'', AStr (truncate body 512))] c)
                 else (case decode w body of
                     Inl err \<Rightarrow> (([], [], []), Log_at LWarn ''ror cluster decode failed''
                       [(''err'', AStr err), (''body'', AStr (truncate body 256))] c)
                   | Inr out \<Rightarrow>
                       ((trim_space (reply_id out), trim_space (reply_name out),
                         trim_space (reply_env out)), c))))"

definition fetchRorIdentity :: "ror_world \<Rightarrow> string \<Rightarrow> string \<Rightarrow> collector \<Rightarrow> rorIdentity \<times> collector" where
  "fetchRorIdentity w endpoint apikey c =
     (let (uid, c) = rorSelfLookup w endpoint apikey c
      in if uid = [] then (no_identity, c)
         else
           (let ((slug, name, env), c) = rorClusterLookup w endpoint apikey uid c;
                slug = (if slug = [] then uid else slug)
            in (\<lparr>ror_UID = uid, ror_Slug = slug, ror_Name = name, ror_Env = env\<rparr>, c)))"

subsection \<open>The refresh loop\<close>

definition resolveRorRefreshInterval ::
  "(string \<Rightarrow> int option) \<Rightarrow> (string \<Rightarrow> string) \<Rightarrow> collector \<Rightarrow> int \<times> collector" where
  "resolveRorRefreshInterval parse getenv c =
     (let raw = trim_space (getenv ''ROR_REFRESH_INTERVAL'')
      in if raw = [] then (defaultRorRefreshInterval, c)
         else if equal_fold raw ''off'' \<or> equal_fold raw ''disabled'' \<or> raw = ''0'' then (0, c)
         else (case parse raw of
             Some d \<Rightarrow> if d < minute_ns
               then (defaultRorRefreshInterval,
                 Log_at LWarn ''ror refresh: invalid ROR_REFRESH_INTERVAL, using default''
                   [(''value'', AStr raw), (''default'', AInt defaultRorRefreshInterval)] c)
               else (d, c)
           | None \<Rightarrow> (defaultRorRefreshInterval,
               Log_at LWarn ''ror refresh: invalid ROR_REFRESH_INTERVAL, using default''
                 [(''value'', AStr raw), (''default'', AInt defaultRorRefreshInterval)] c)))"

definition ror_next :: "int \<Rightarrow> rorIdentity \<Rightarrow> int" where
  "ror_next interval current = (if current = no_identity then min rorRetryInterval interval else interval)"

text \<open>
  What a round does: \<open>stamp_args\<close> are the version and commit of the build.
\<close>

definition ror_round ::
  "string \<times> string \<Rightarrow> (string \<Rightarrow> string) \<Rightarrow> string \<Rightarrow> string \<Rightarrow> ror_world \<Rightarrow>
   rorIdentity \<times> collector \<Rightarrow> rorIdentity \<times> collector" where
  "ror_round build getenv endpoint clusterID w st =
     (let (current, c) = st;
          (apikey, c) = resolveRorApiKey getenv w c
      in if apikey \<noteq> []
         then
           (let (ident, c) = fetchRorIdentity w endpoint apikey c
            in if ident \<noteq> no_identity \<and> ident \<noteq> current
               then
                 (let name = resolveClusterName getenv (ror_Name ident);
                      env = resolveEnvironment getenv (ror_Env ident);
                      c = SetClusterAttrs (clusterAttrSet (fst build) (snd build) name clusterID env ident) c;
                      c = Log_at LInfo ''ror identity updated''
                        [(''ror_cluster_uid'', AStr (ror_UID ident)),
                         (''previous_ror_cluster_uid'', AStr (ror_UID current)),
                         (''ror_cluster_id'', AStr (ror_Slug ident)),
                         (''cluster'', AStr name), (''environment'', AStr env)] c
                  in (ident, c))
               else (current, c))
         else (current, c))"

text \<open>The rounds until the context is cancelled, with the delay the timer is set to after each.\<close>

fun ror_rounds ::
  "string \<times> string \<Rightarrow> (string \<Rightarrow> string) \<Rightarrow> string \<Rightarrow> string \<Rightarrow> int \<Rightarrow> ror_world list \<Rightarrow>
   int list \<times> rorIdentity \<times> collector \<Rightarrow> int list \<times> rorIdentity \<times> collector" where
  "ror_rounds build getenv endpoint clusterID interval [] st = st"
| "ror_rounds build getenv endpoint clusterID interval (w # ws) (delays, current, c) =
     (let (current', c') = ror_round build getenv endpoint clusterID w (current, c)
      in ror_rounds build getenv endpoint clusterID interval ws
           (delays @ [ror_next interval current'], current', c'))"

definition rorIdentityLoop ::
  "string \<times> string \<Rightarrow> (string \<Rightarrow> int option) \<Rightarrow> (string \<Rightarrow> string) \<Rightarrow> string \<Rightarrow> ror_world list \<Rightarrow>
   rorIdentity \<Rightarrow> collector \<Rightarrow> int list \<times> rorIdentity \<times> collector" where
  "rorIdentityLoop build parse getenv clusterID rounds current c =
     (let endpoint = rorEndpoint getenv
      in if endpoint = [] then ([], current, c)
         else
           (let (interval, c) = resolveRorRefreshInterval parse getenv c
            in if interval \<le> 0 then ([], current, Log_at LInfo ''ror refresh: disabled'' [] c)
               else
                 (let first = ror_next interval current;
                      c = Log_at LInfo ''ror refresh: scheduled''
                        [(''interval'', AInt interval), (''next'', AInt first)] c
                  in ror_rounds build getenv endpoint clusterID interval rounds ([first], current, c))))"

subsection \<open>What a lookup returns and logs\<close>

definition ror_wf :: "rorIdentity \<Rightarrow> bool" where
  "ror_wf ident = (ident = no_identity \<or> ror_UID ident \<noteq> [] \<and> ror_Slug ident \<noteq> [])"

lemma no_identity_UID [simp]: "ror_UID no_identity = []"
  by (simp add: no_identity_def)

lemma api_key_attrs [simp]: "clusterAttrs (snd (resolveRorApiKey getenv w c)) = clusterAttrs c"
  by (auto simp: resolveRorApiKey_def Let_def split: sum.split option.split)

lemma self_attrs [simp]: "clusterAttrs (snd (rorSelfLookup w endpoint apikey c)) = clusterAttrs c"
  by (auto simp: rorSelfLookup_def split: sum.split)

lemma cluster_lookup_attrs [simp]:
  "clusterAttrs (snd (rorClusterLookup w endpoint apikey ident c)) = clusterAttrs c"
  by (auto simp: rorClusterLookup_def Let_def split: sum.split http_reply.split)

lemma fetch_attrs [simp]: "clusterAttrs (snd (fetchRorIdentity w endpoint apikey c)) = clusterAttrs c"
  using self_attrs [of w endpoint apikey c] cluster_lookup_attrs [of w endpoint apikey]
  by (auto simp: fetchRorIdentity_def Let_def split: prod.split simp del: self_attrs cluster_lookup_attrs)
    (metis snd_conv)

lemma api_key_quiet: "attrs_ok c \<Longrightarrow> quiet c (snd (resolveRorApiKey getenv w c))"
  unfolding resolveRorApiKey_def Let_def
  by (auto split: sum.split option.split simp del: Log_at_eq intro!: quiet_Log_at)

lemma self_quiet: "attrs_ok c \<Longrightarrow> quiet c (snd (rorSelfLookup w endpoint apikey c))"
  by (auto simp: rorSelfLookup_def split: sum.split simp del: Log_at_eq intro!: quiet_Log_at)

lemma cluster_lookup_quiet: "attrs_ok c \<Longrightarrow> quiet c (snd (rorClusterLookup w endpoint apikey ident c))"
  unfolding rorClusterLookup_def Let_def
  by (auto split: sum.split http_reply.split simp del: Log_at_eq intro!: quiet_Log_at)

lemma attrs_ok_cong: "clusterAttrs c' = clusterAttrs c \<Longrightarrow> attrs_ok c' = attrs_ok c"
  by (simp add: attrs_ok_def)

lemma fetch_quiet:
  assumes "attrs_ok c"
  shows "quiet c (snd (fetchRorIdentity w endpoint apikey c))"
proof -
  obtain uid c1 where self: "rorSelfLookup w endpoint apikey c = (uid, c1)" by (cases "rorSelfLookup w endpoint apikey c")
  obtain r c2 where lk: "rorClusterLookup w endpoint apikey uid c1 = (r, c2)"
    by (cases "rorClusterLookup w endpoint apikey uid c1")
  from self_quiet [OF assms, of w endpoint apikey] self have q1: "quiet c c1" by simp
  from self_attrs [of w endpoint apikey c] self assms have "attrs_ok c1" by (simp add: attrs_ok_def)
  from cluster_lookup_quiet [OF this, of w endpoint apikey uid] lk have "quiet c1 c2" by simp
  with q1 quiet_trans have "quiet c c2" by blast
  with q1 show ?thesis by (simp add: fetchRorIdentity_def self lk Let_def split: prod.split)
qed

text \<open>C37: a lookup returns the zero identity exactly when the service does not vouch for the key as a
  cluster's with a user name that is not blank; any other outcome, an unanswered or unreadable second
  call included, is an identity with that name as its UID and a slug that is not empty.\<close>

theorem ror_fetch_well_formed:
  "(let ident = fst (fetchRorIdentity w endpoint apikey c) in
     (case self_get w endpoint apikey of
        Inl err \<Rightarrow> ident = no_identity
      | Inr (typ, user) \<Rightarrow>
          if typ = cluster_type w \<and> trim_space user \<noteq> []
          then ror_UID ident = trim_space user \<and> ror_Slug ident \<noteq> []
          else ident = no_identity))"
  by (auto simp: fetchRorIdentity_def rorSelfLookup_def Let_def split: sum.split prod.split)

lemma fetch_wf: "ror_wf (fst (fetchRorIdentity w endpoint apikey c))"
  by (auto simp: ror_wf_def fetchRorIdentity_def Let_def split: prod.split)

subsection \<open>The attributes on the records\<close>

definition identity_attrs ::
  "string \<times> string \<Rightarrow> (string \<Rightarrow> string) \<Rightarrow> string \<Rightarrow> rorIdentity \<Rightarrow> attr list" where
  "identity_attrs build getenv clusterID ident =
     clusterAttrSet (fst build) (snd build) (resolveClusterName getenv (ror_Name ident)) clusterID
       (resolveEnvironment getenv (ror_Env ident)) ident"

lemma attr_set_keys:
  "fst ` set (clusterAttrSet v k name clusterID env ident) \<subseteq>
     {''cluster'', ''cluster_id'', ''environment'', ''ror_metadata'', ''version'', ''commit''}"
  by (auto simp: clusterAttrSet_def Let_def)

lemma attr_set_no_event_id: "''event_id'' \<notin> fst ` set (clusterAttrSet v k name clusterID env ident)"
  using attr_set_keys [of v k name clusterID env ident] by auto

subsection \<open>The loop\<close>

text \<open>
  The lookup of a round, without what follows from it; the same lookup is made once at startup.  What
  it finds and the lines it logs depend on the services alone, not on the log.
\<close>

definition ror_lookup ::
  "(string \<Rightarrow> string) \<Rightarrow> string \<Rightarrow> ror_world \<Rightarrow> collector \<Rightarrow> rorIdentity \<times> collector" where
  "ror_lookup getenv endpoint w c =
     (let (apikey, c) = resolveRorApiKey getenv w c
      in if apikey \<noteq> [] then fetchRorIdentity w endpoint apikey c else (no_identity, c))"

definition updated_out :: "(string \<Rightarrow> string) \<Rightarrow> rorIdentity \<Rightarrow> rorIdentity \<Rightarrow> out" where
  "updated_out getenv current ident = OLog LInfo ''ror identity updated''
     [(''ror_cluster_uid'', AStr (ror_UID ident)), (''previous_ror_cluster_uid'', AStr (ror_UID current)),
      (''ror_cluster_id'', AStr (ror_Slug ident)),
      (''cluster'', AStr (resolveClusterName getenv (ror_Name ident))),
      (''environment'', AStr (resolveEnvironment getenv (ror_Env ident)))]"

lemma ror_round_lookup:
  "ror_round build getenv endpoint clusterID w (current, c) =
     (let (ident, c) = ror_lookup getenv endpoint w c
      in if ident \<noteq> no_identity \<and> ident \<noteq> current
         then (ident, log_outs [updated_out getenv current ident]
           (SetClusterAttrs (identity_attrs build getenv clusterID ident) c))
         else (current, c))"
  by (auto simp: ror_round_def ror_lookup_def updated_out_def identity_attrs_def log_outs_Cons Let_def
      simp del: Log_at_eq split: prod.split)

definition says :: "(collector \<Rightarrow> 'a \<times> collector) \<Rightarrow> bool" where
  "says f \<longleftrightarrow> (\<exists>x os. list_all operational os \<and> f = (\<lambda>c. (x, log_outs os c)))"

lemma says_silent: "says (\<lambda>c. (x, c))"
  unfolding says_def by (rule exI [of _ x], rule exI [of _ "[]"]) (simp add: fun_eq_iff)

lemma says_line: "l \<noteq> LDebug \<Longrightarrow> ''event_id'' \<notin> fst ` set as \<Longrightarrow> says (\<lambda>c. (x, Log_at l msg as c))"
  unfolding says_def
  by (rule exI [of _ x], rule exI [of _ "[OLog l msg as]"]) (simp add: fun_eq_iff log_outs_Cons)

lemma says_bind:
  assumes "says f" and "\<And>x. says (g x)"
  shows "says (\<lambda>c. case f c of (x, c) \<Rightarrow> g x c)"
proof -
  from assms(1) obtain x os where f: "list_all operational os" "f = (\<lambda>c. (x, log_outs os c))"
    unfolding says_def by blast
  from assms(2) obtain y os' where g: "list_all operational os'" "g x = (\<lambda>c. (y, log_outs os' c))"
    unfolding says_def by blast
  have "(\<lambda>c. case f c of (x, c) \<Rightarrow> g x c) = (\<lambda>c. (y, log_outs (os @ os') c))"
    by (simp add: f(2) g(2))
  with f(1) g(1) show ?thesis unfolding says_def by (metis list_all_append)
qed

lemma says_if: "(P \<Longrightarrow> says f) \<Longrightarrow> (\<not> P \<Longrightarrow> says g) \<Longrightarrow> says (\<lambda>c. if P then f c else g c)"
  by (cases P) simp_all

lemma says_sum: "(\<And>e. says (f e)) \<Longrightarrow> (\<And>x. says (g x)) \<Longrightarrow> says (\<lambda>c. case s of Inl e \<Rightarrow> f e c | Inr x \<Rightarrow> g x c)"
  by (cases s) simp_all

lemma says_option: "says f \<Longrightarrow> (\<And>x. says (g x)) \<Longrightarrow> says (\<lambda>c. case s of None \<Rightarrow> f c | Some x \<Rightarrow> g x c)"
  by (cases s) simp_all

lemma says_pair: "(\<And>x y. says (g x y)) \<Longrightarrow> says (\<lambda>c. case p of (x, y) \<Rightarrow> g x y c)"
  by (cases p) simp

lemma says_reply:
  "(\<And>e. says (f e)) \<Longrightarrow> (\<And>e. says (g e)) \<Longrightarrow> (\<And>st b. says (h st b)) \<Longrightarrow>
   says (\<lambda>c. case r of RequestError e \<Rightarrow> f e c | TransportError e \<Rightarrow> g e c | Response st b \<Rightarrow> h st b c)"
  by (cases r) simp_all

lemmas says_intros = says_silent says_line says_if says_sum says_option says_pair says_reply

lemma says_api_key: "says (resolveRorApiKey getenv w)"
  unfolding resolveRorApiKey_def Let_def by (intro says_intros) simp_all

lemma says_self: "says (rorSelfLookup w endpoint apikey)"
  unfolding rorSelfLookup_def by (intro says_intros) simp_all

lemma says_cluster: "says (rorClusterLookup w endpoint apikey uid)"
  unfolding rorClusterLookup_def Let_def by (intro says_intros) simp_all

lemma says_fetch: "says (fetchRorIdentity w endpoint apikey)"
proof -
  have "says (\<lambda>c. case rorSelfLookup w endpoint apikey c of (uid, c) \<Rightarrow>
      if uid = [] then (no_identity, c)
      else case rorClusterLookup w endpoint apikey uid c of (r, c) \<Rightarrow>
        (case r of (slug, name, env) \<Rightarrow>
          (\<lparr>ror_UID = uid, ror_Slug = if slug = [] then uid else slug, ror_Name = name, ror_Env = env\<rparr>, c)))"
    (is "says ?f")
    by (intro says_bind says_self says_intros says_cluster)
  moreover have "fetchRorIdentity w endpoint apikey = ?f"
    by (rule ext) (simp add: fetchRorIdentity_def Let_def split: prod.split)
  ultimately show ?thesis by simp
qed

lemma says_lookup: "says (ror_lookup getenv endpoint w)"
  unfolding ror_lookup_def Let_def
  by (intro says_bind says_api_key says_intros says_fetch)

lemma lookup_wf: "ror_wf (fst (ror_lookup getenv endpoint w c))"
  using fetch_wf by (auto simp: ror_lookup_def ror_wf_def Let_def split: prod.split)

lemma ror_round_cases:
  assumes "ror_round build getenv endpoint clusterID w (current, c) = (current', c')"
  obtains (keep) "current' = current" "clusterAttrs c' = clusterAttrs c"
  | (swap) "current' \<noteq> no_identity" "current' \<noteq> current" "ror_wf current'"
      "clusterAttrs c' = identity_attrs build getenv clusterID current'"
proof -
  obtain key c1 where key: "resolveRorApiKey getenv w c = (key, c1)"
    by (cases "resolveRorApiKey getenv w c")
  obtain ident c2 where fetch: "fetchRorIdentity w endpoint key c1 = (ident, c2)"
    by (cases "fetchRorIdentity w endpoint key c1")
  have attrs: "clusterAttrs c1 = clusterAttrs c" "clusterAttrs c2 = clusterAttrs c1"
    using api_key_attrs [of getenv w c] fetch_attrs [of w endpoint key c1] by (simp_all add: key fetch)
  have wf: "ror_wf ident" using fetch_wf [of w endpoint key c1] by (simp add: fetch)
  show thesis
  proof (cases "key \<noteq> [] \<and> ident \<noteq> no_identity \<and> ident \<noteq> current")
    case True
    with assms have "current' = ident" "clusterAttrs c' = identity_attrs build getenv clusterID ident"
      by (auto simp: ror_round_def key fetch identity_attrs_def Let_def)
    with True wf show thesis by (intro swap) simp_all
  next
    case False
    with assms attrs have "current' = current" "clusterAttrs c' = clusterAttrs c"
      by (auto simp: ror_round_def key fetch Let_def split: if_splits)
    then show thesis by (rule keep)
  qed
qed

lemma ror_rounds_invariant:
  assumes "ror_rounds build getenv endpoint clusterID interval ws (ds, current, c) = (ds', current', c')"
    and "clusterAttrs c = identity_attrs build getenv clusterID current" and "ror_wf current"
  shows "clusterAttrs c' = identity_attrs build getenv clusterID current' \<and> ror_wf current' \<and>
    (current' = no_identity \<longrightarrow> current = no_identity)"
  using assms
proof (induction ws arbitrary: ds current c)
  case Nil
  then show ?case by simp
next
  case (Cons w ws)
  obtain cur1 c1 where round: "ror_round build getenv endpoint clusterID w (current, c) = (cur1, c1)"
    by (cases "ror_round build getenv endpoint clusterID w (current, c)")
  from Cons.prems(1) round
  have rest: "ror_rounds build getenv endpoint clusterID interval ws
      (ds @ [ror_next interval cur1], cur1, c1) = (ds', current', c')" by simp
  from round show ?case
  proof (cases rule: ror_round_cases)
    case keep
    with Cons.IH [OF rest] Cons.prems(2, 3) show ?thesis by simp
  next
    case swap
    with Cons.IH [OF rest] show ?thesis by simp
  qed
qed

lemma interval_log_attrs [simp]:
  "clusterAttrs (snd (resolveRorRefreshInterval parse getenv c)) = clusterAttrs c"
  by (auto simp: resolveRorRefreshInterval_def Let_def split: option.split)

lemma ror_loop_eq:
  assumes "resolveRorRefreshInterval parse getenv c = (interval, c1)"
  shows "rorIdentityLoop build parse getenv clusterID rounds current c =
    (if rorEndpoint getenv = [] then ([], current, c)
     else if interval \<le> 0 then ([], current, Log_at LInfo ''ror refresh: disabled'' [] c1)
     else ror_rounds build getenv (rorEndpoint getenv) clusterID interval rounds
       ([ror_next interval current], current, Log_at LInfo ''ror refresh: scheduled''
         [(''interval'', AInt interval), (''next'', AInt (ror_next interval current))] c1))"
  unfolding rorIdentityLoop_def Let_def by (simp only: assms prod.case)

text \<open>C10: however the services answer over however many rounds, the attributes on the records are those of
  the identity the loop holds, that identity is well formed, and once the cluster is known it is never
  unknown again.\<close>

theorem ror_loop_invariant:
  assumes "rorIdentityLoop build parse getenv clusterID rounds current c = (delays, current', c')"
    and "clusterAttrs c = identity_attrs build getenv clusterID current" and "ror_wf current"
  shows "clusterAttrs c' = identity_attrs build getenv clusterID current' \<and> ror_wf current' \<and>
    (if current = no_identity then True else current' \<noteq> no_identity)"
proof -
  obtain interval c1 where res: "resolveRorRefreshInterval parse getenv c = (interval, c1)"
    by (cases "resolveRorRefreshInterval parse getenv c")
  have c1: "clusterAttrs c1 = clusterAttrs c"
    using interval_log_attrs [of parse getenv c] by (simp add: res)
  note loop = assms(1) [unfolded ror_loop_eq [OF res]]
  consider "rorEndpoint getenv = []" | "rorEndpoint getenv \<noteq> []" "interval \<le> 0"
    | "rorEndpoint getenv \<noteq> []" "\<not> interval \<le> 0" by blast
  then show ?thesis
  proof cases
    case 3
    with loop have "ror_rounds build getenv (rorEndpoint getenv) clusterID interval rounds
        ([ror_next interval current], current, Log_at LInfo ''ror refresh: scheduled''
          [(''interval'', AInt interval), (''next'', AInt (ror_next interval current))] c1) =
      (delays, current', c')" by (simp del: Log_at_eq)
    from ror_rounds_invariant [OF this] assms(2, 3) c1 show ?thesis by auto
  qed (use loop assms(2, 3) c1 in auto)
qed

subsection \<open>A run of the loop\<close>

definition demo_env :: "string \<Rightarrow> string" where
  "demo_env k = (if k = ''ROR_API_ENDPOINT'' then ''http://ror/''
     else if k = ''ROR_API_KEY'' then ''key'' else [])"

definition demo_world :: "int \<Rightarrow> ror_world" where
  "demo_world status =
     \<lparr>self_get = (\<lambda>_ _. Inr (''Cluster'', ''u-1'')), http_do = (\<lambda>_. Response status ''...''),
      decode = (\<lambda>_. Inr \<lparr>reply_id = ''t-1'', reply_name = ''prod'', reply_env = ''p''\<rparr>),
      secret_get = (\<lambda>_ _. Inl ''forbidden''), cluster_type = ''Cluster''\<rparr>"

definition demo_identity :: rorIdentity where
  "demo_identity = \<lparr>ror_UID = ''u-1'', ror_Slug = ''t-1'', ror_Name = ''prod'', ror_Env = ''p''\<rparr>"

lemma demo_trims:
  "trim_space ''http://ror/'' = ''http://ror/''" "trim_space ''key'' = ''key''"
  "trim_space ''u-1'' = ''u-1''" "trim_space ''t-1'' = ''t-1''" "trim_space ''prod'' = ''prod''"
  "trim_space ''p'' = ''p''"
  by (rule trim_space_graphic; simp add: graphic_def)+

lemma demo_endpoint: "rorEndpoint demo_env = ''http://ror/''"
  by (simp add: rorEndpoint_def demo_env_def demo_trims)

lemma demo_interval: "resolveRorRefreshInterval parse demo_env c = (hour_ns, c)"
  by (simp add: resolveRorRefreshInterval_def demo_env_def defaultRorRefreshInterval_def Let_def)

lemma demo_key: "resolveRorApiKey demo_env w c = (''key'', c)"
  by (simp add: resolveRorApiKey_def demo_env_def demo_trims Let_def)

lemma demo_fetch: "fetchRorIdentity (demo_world 200) ''http://ror/'' ''key'' c = (demo_identity, c)"
  by (simp add: fetchRorIdentity_def rorSelfLookup_def rorClusterLookup_def demo_world_def
      demo_identity_def demo_trims Let_def)

lemma demo_round:
  "fst (ror_round (''1.0'', ''abc'') demo_env ''http://ror/'' ''kube-uid'' (demo_world 200) (no_identity, c)) =
   demo_identity"
  unfolding ror_round_def Let_def
  by (simp add: demo_key demo_fetch demo_identity_def no_identity_def del: Log_at_eq)

definition demo_start :: collector where
  "demo_start = SetClusterAttrs
     (identity_attrs (''1.0'', ''abc'') demo_env ''kube-uid'' no_identity) init_collector"

definition demo_run :: "int list \<times> rorIdentity \<times> collector" where
  "demo_run = rorIdentityLoop (''1.0'', ''abc'') (\<lambda>_. None) demo_env ''kube-uid'' [demo_world 200]
     no_identity demo_start"

lemma demo_run_identity: "fst (snd demo_run) = demo_identity"
proof -
  obtain x y where "ror_round (''1.0'', ''abc'') demo_env ''http://ror/'' ''kube-uid'' (demo_world 200)
      (no_identity, Log_at LInfo ''ror refresh: scheduled''
        [(''interval'', AInt hour_ns), (''next'', AInt (ror_next hour_ns no_identity))] demo_start) = (x, y)"
    by (rule prod.exhaust)
  with demo_round show ?thesis
    by (simp add: demo_run_def ror_loop_eq [OF demo_interval] demo_endpoint hour_ns_def minute_ns_def
        second_ns_def del: Log_at_eq) (metis fst_conv)
qed

theorem ror_loop_invariant_witness:
  "clusterAttrs (snd (snd demo_run)) =
     identity_attrs (''1.0'', ''abc'') demo_env ''kube-uid'' demo_identity"
proof -
  have "rorIdentityLoop (''1.0'', ''abc'') (\<lambda>_. None) demo_env ''kube-uid'' [demo_world 200]
      no_identity demo_start = (fst demo_run, fst (snd demo_run), snd (snd demo_run))"
    by (simp add: demo_run_def)
  from ror_loop_invariant [OF this] show ?thesis
    by (simp add: demo_run_identity) (simp add: demo_start_def ror_wf_def)
qed

subsection \<open>Cadence\<close>

lemma ror_rounds_delays:
  "fst (ror_rounds build getenv endpoint clusterID interval ws (ds, current, c)) =
     ds @ map (\<lambda>n. ror_next interval (fst (snd (ror_rounds build getenv endpoint clusterID interval
       (take (Suc n) ws) (ds, current, c))))) [0..<length ws]"
proof (induction ws arbitrary: ds current c)
  case (Cons w ws)
  obtain cur1 c1 where "ror_round build getenv endpoint clusterID w (current, c) = (cur1, c1)"
    by (cases "ror_round build getenv endpoint clusterID w (current, c)")
  with Cons show ?case
    by (simp add: upt_conv_Cons map_Suc_upt [symmetric] comp_def del: upt_Suc)
qed simp

lemma ror_interval_range:
  "resolveRorRefreshInterval parse getenv c = (interval, c') \<Longrightarrow> interval = 0 \<or> minute_ns \<le> interval"
  by (auto simp: resolveRorRefreshInterval_def defaultRorRefreshInterval_def duration_defs Let_def
      split: option.splits if_splits)

text \<open>C36: with an endpoint configured and the refresh not switched off, the timer is set once at the start
  and once after every round: to the interval while the cluster is known, and to no more than ten
  minutes while it is not; it never fires more often than once a minute.\<close>

theorem ror_loop_cadence:
  assumes "rorEndpoint getenv \<noteq> []"
    and res: "resolveRorRefreshInterval parse getenv c = (interval, c1)" and "interval \<noteq> 0"
  shows "(let run = (\<lambda>n. rorIdentityLoop build parse getenv clusterID (take n rounds) current c);
              delays = fst (run (length rounds))
      in delays = map (\<lambda>n. if fst (snd (run n)) = no_identity then min (10 * minute_ns) interval else interval)
           [0..<Suc (length rounds)] \<and>
         list_all (\<lambda>d. minute_ns \<le> d \<and> d \<le> interval) delays)"
proof -
  have min: "minute_ns \<le> interval" using ror_interval_range [OF res] assms(3) by simp
  then have pos: "\<not> interval \<le> 0" by (simp add: duration_defs)
  have next_eq: "ror_next interval i = (if i = no_identity then min (10 * minute_ns) interval else interval)" for i
    by (simp add: ror_next_def rorRetryInterval_def)
  have range: "minute_ns \<le> ror_next interval i \<and> ror_next interval i \<le> interval" for i
    using min by (auto simp: next_eq minute_ns_def second_ns_def)
  show ?thesis
    using assms(1) pos range
    by (simp add: ror_loop_eq [OF res] ror_rounds_delays upt_conv_Cons map_Suc_upt [symmetric]
        comp_def next_eq [symmetric] list_all_iff del: upt_Suc Log_at_eq)
qed

theorem ror_loop_cadence_witness: "fst demo_run = [10 * minute_ns, hour_ns]"
proof -
  have "rorEndpoint demo_env \<noteq> []" by (simp add: demo_endpoint)
  moreover have "hour_ns \<noteq> 0" by (simp add: duration_defs)
  ultimately have "let run = (\<lambda>n. rorIdentityLoop (''1.0'', ''abc'') (\<lambda>_. None) demo_env ''kube-uid''
        (take n [demo_world 200]) no_identity demo_start);
      delays = fst (run (length [demo_world 200]))
    in delays = map (\<lambda>n. if fst (snd (run n)) = no_identity then min (10 * minute_ns) hour_ns else hour_ns)
         [0..<Suc (length [demo_world 200])] \<and>
       list_all (\<lambda>d. minute_ns \<le> d \<and> d \<le> hour_ns) delays"
    by (rule ror_loop_cadence [OF _ demo_interval])
  moreover have "rorIdentityLoop (''1.0'', ''abc'') (\<lambda>_. None) demo_env ''kube-uid'' [demo_world 200]
      no_identity demo_start = demo_run" by (simp add: demo_run_def)
  moreover have "fst (snd (rorIdentityLoop (''1.0'', ''abc'') (\<lambda>_. None) demo_env ''kube-uid'' []
      no_identity demo_start)) = no_identity"
    by (simp add: ror_loop_eq [OF demo_interval])
  moreover have "demo_identity \<noteq> no_identity" by (simp add: demo_identity_def no_identity_def)
  ultimately show ?thesis
    by (simp add: Let_def demo_run_identity) (simp add: duration_defs)
qed

subsection \<open>What is kept, and what is not logged\<close>

lemma ror_round_keeps:
  assumes "fst (resolveRorApiKey getenv w c) = [] \<or>
    (\<forall>key. case self_get w endpoint key of Inl err \<Rightarrow> True
      | Inr (typ, user) \<Rightarrow> typ \<noteq> cluster_type w \<or> trim_space user = [])"
  shows "fst (ror_round build getenv endpoint clusterID w (current, c)) = current"
proof -
  obtain key c1 where key: "resolveRorApiKey getenv w c = (key, c1)"
    by (cases "resolveRorApiKey getenv w c")
  obtain ident c2 where fetch: "fetchRorIdentity w endpoint key c1 = (ident, c2)"
    by (cases "fetchRorIdentity w endpoint key c1")
  have "key = [] \<or> ident = no_identity"
    using assms arg_cong [OF fetch, of fst]
    by (auto simp: key fetchRorIdentity_def rorSelfLookup_def Let_def split: sum.splits prod.splits if_splits)
  then show ?thesis by (auto simp: ror_round_def key fetch Let_def)
qed

text \<open>The warning about a secret depends on which keys it has, never on their values.\<close>

lemma secret_not_logged:
  assumes "case (secret_get w ns name, secret_get w' ns name) of
      (Inl e, Inl e') \<Rightarrow> e = e'
    | (Inr d, Inr d') \<Rightarrow> map fst d = map fst d' \<and> (\<forall>k. (map_of d k = Some []) = (map_of d' k = Some []))
    | _ \<Rightarrow> False"
    and "ns = trim_space (getenv ''ROR_API_KEY_SECRET_NAMESPACE'')"
    and "name = trim_space (getenv ''ROR_API_KEY_SECRET_NAME'')"
  shows "snd (resolveRorApiKey getenv w c) = snd (resolveRorApiKey getenv w' c)"
proof (cases "secret_get w ns name")
  case (Inl e)
  with assms show ?thesis by (auto simp: resolveRorApiKey_def Let_def split: sum.splits)
next
  case (Inr d)
  with assms(1) obtain d' where d': "secret_get w' ns name = Inr d'" "map fst d = map fst d'"
    and empty: "\<And>k. (map_of d k = Some []) = (map_of d' k = Some [])" by (auto split: sum.splits)
  have "fst ` set d = fst ` set d'" using d'(2) by (metis list.set_map)
  then have dom: "(map_of d k = None) = (map_of d' k = None)" for k by (simp add: map_of_eq_None_iff)
  define k where "k = trim_space (getenv ''ROR_API_KEY_SECRET_KEY'')"
  show ?thesis
    using assms(2, 3) Inr d' empty [of k] dom [of k] k_def
    by (auto simp: resolveRorApiKey_def secretKeys_def Let_def split: option.split)
qed

text \<open>C38: the API key is not logged: towards services whose answers do not depend on the key, two
  non-blank keys in the environment give the same identity, attributes and log lines in a round.\<close>

theorem ror_key_not_logged:
  assumes "trim_space (getenv ''ROR_API_KEY'') = k" and "trim_space raw' = k'" and "k \<noteq> []" and "k' \<noteq> []"
    and "\<forall>e. self_get w e k = self_get w e k'"
    and "\<forall>url a. http_do w \<lparr>req_url = url, req_api_key = k, req_accept = a\<rparr> =
      http_do w \<lparr>req_url = url, req_api_key = k', req_accept = a\<rparr>"
  shows "ror_round build (getenv(''ROR_API_KEY'' := raw')) endpoint clusterID w st =
    ror_round build getenv endpoint clusterID w st"
proof -
  have lk: "rorClusterLookup w endpoint k = rorClusterLookup w endpoint k'"
    using assms(6) by (simp add: rorClusterLookup_def fun_eq_iff Let_def)
  have self: "rorSelfLookup w endpoint k = rorSelfLookup w endpoint k'"
    using assms(5) by (simp add: rorSelfLookup_def fun_eq_iff)
  have fetch: "fetchRorIdentity w endpoint k c = fetchRorIdentity w endpoint k' c" for c
    unfolding fetchRorIdentity_def lk self ..
  have key: "resolveRorApiKey getenv w c = (k, c)"
    "resolveRorApiKey (getenv(''ROR_API_KEY'' := raw')) w c = (k', c)" for c
    using assms(1-4) by (simp_all add: resolveRorApiKey_def Let_def)
  have settings: "resolveClusterName (getenv(''ROR_API_KEY'' := raw')) = resolveClusterName getenv"
    "resolveEnvironment (getenv(''ROR_API_KEY'' := raw')) = resolveEnvironment getenv"
    by (simp_all add: resolveClusterName_def resolveEnvironment_def fun_eq_iff)
  show ?thesis
    using assms(3, 4) unfolding ror_round_def settings by (simp add: key fetch)
qed

theorem ror_key_not_logged_witness:
  "ror_round (''1.0'', ''abc'') (demo_env(''ROR_API_KEY'' := ''prod'')) ''http://ror/'' ''kube-uid''
       (demo_world 200) (no_identity, init_collector) =
     ror_round (''1.0'', ''abc'') demo_env ''http://ror/'' ''kube-uid'' (demo_world 200) (no_identity, init_collector)"
  by (rule ror_key_not_logged [of _ "''key''" _ "''prod''"])
    (simp_all add: demo_env_def demo_world_def demo_trims)

subsection \<open>A failed second call\<close>

text \<open>
  The second call is not the lookup the loop keeps its identity for: when it fails after a good
  round, the identity without name, environment and slug counts as a different one and replaces the
  full one, on the records too.
\<close>

lemma failed_cluster_call_degrades:
  "fst (ror_round b demo_env ''http://ror/'' ''kube-uid'' (demo_world 503) (demo_identity, c)) =
     \<lparr>ror_UID = ''u-1'', ror_Slug = ''u-1'', ror_Name = [], ror_Env = []\<rparr>"
proof -
  obtain c' where "fetchRorIdentity (demo_world 503) ''http://ror/'' ''key'' c =
      (\<lparr>ror_UID = ''u-1'', ror_Slug = ''u-1'', ror_Name = [], ror_Env = []\<rparr>, c')"
    by (simp add: fetchRorIdentity_def rorSelfLookup_def rorClusterLookup_def demo_world_def
        demo_trims Let_def)
  then show ?thesis
    unfolding ror_round_def Let_def
    by (simp add: demo_key demo_identity_def no_identity_def del: Log_at_eq)
qed

end
