(* ===== verification/Interleaving.thy ===== *)
theory Interleaving
  imports Event_Log
begin

section \<open>Goroutines sharing the record log: eventid.go, collector.go\<close>

text \<open>
  The informers' handlers, the snapshot loop and the other loops run in goroutines of their own.  An
  emission is not atomic: the id is taken from the atomic counter while the arguments of the log call
  are evaluated, and the line is written later, under the handler's lock.  The state here is the
  package state and, per goroutine, the lines it has still to log and the id it holds; a step is one
  goroutine taking an id or writing a line, the identity attributes being swapped, or a goroutine
  being handed more to log.
\<close>

record goroutine =
  gr_todo :: "out list"
  gr_id :: "u64 option"

record system =
  sy_threads :: "goroutine list"
  sy_col :: collector

text \<open>The work of one goroutine on its next line.\<close>

inductive thread_step :: "goroutine \<Rightarrow> collector \<Rightarrow> goroutine \<Rightarrow> collector \<Rightarrow> bool" where
  take_id: "NextEventID c = (n, c') \<Longrightarrow>
    thread_step \<lparr>gr_todo = ORec event kind rest # os, gr_id = None\<rparr> c
      \<lparr>gr_todo = ORec event kind rest # os, gr_id = Some n\<rparr> c'"
| write_rec: "thread_step \<lparr>gr_todo = ORec event kind rest # os, gr_id = Some n\<rparr> c
    \<lparr>gr_todo = os, gr_id = None\<rparr>
    (Log_at LInfo event ((''kind'', AStr kind) # (''event_id'', AU64 n) # rest) c)"
| write_line: "thread_step \<lparr>gr_todo = OLog l msg attrs # os, gr_id = None\<rparr> c
    \<lparr>gr_todo = os, gr_id = None\<rparr> (Log_at l msg attrs c)"

inductive_cases thread_stepE: "thread_step t c t' c'"
inductive_simps thread_step_rec: "thread_step \<lparr>gr_todo = ORec event kind rest # os, gr_id = None\<rparr> c t' c'"

inductive internal :: "system \<Rightarrow> system \<Rightarrow> bool" where
  one_thread: "i < length ts \<Longrightarrow> thread_step (ts ! i) c t' c' \<Longrightarrow>
    internal \<lparr>sy_threads = ts, sy_col = c\<rparr> \<lparr>sy_threads = ts[i := t'], sy_col = c'\<rparr>"

inductive_cases internalE: "internal s s'"

inductive external :: "system \<Rightarrow> system \<Rightarrow> bool" where
  swap_attrs: "''event_id'' \<notin> fst ` set attrs \<Longrightarrow>
    external \<lparr>sy_threads = ts, sy_col = c\<rparr> \<lparr>sy_threads = ts, sy_col = SetClusterAttrs attrs c\<rparr>"
| hand_over: "i < length ts \<Longrightarrow> list_all wf_out os \<Longrightarrow>
    external \<lparr>sy_threads = ts, sy_col = c\<rparr>
      \<lparr>sy_threads = ts[i := (ts ! i)\<lparr>gr_todo := gr_todo (ts ! i) @ os\<rparr>], sy_col = c\<rparr>"

inductive_cases externalE: "external s s'"

definition start_system :: "nat \<Rightarrow> collector \<Rightarrow> system" where
  "start_system n c = \<lparr>sy_threads = replicate n \<lparr>gr_todo = [], gr_id = None\<rparr>, sy_col = c\<rparr>"

inductive reach :: "nat \<Rightarrow> collector \<Rightarrow> system \<Rightarrow> bool"
  for n :: nat and c :: collector where
  reach_start: "reach n c (start_system n c)"
| reach_internal: "reach n c s \<Longrightarrow> internal s s' \<Longrightarrow> reach n c s'"
| reach_external: "reach n c s \<Longrightarrow> external s s' \<Longrightarrow> reach n c s'"

subsection \<open>Ids held and ids written\<close>

definition held :: "goroutine list \<Rightarrow> u64 list" where
  "held ts = List.map_filter gr_id ts"

definition thread_ok :: "goroutine \<Rightarrow> bool" where
  "thread_ok t = (list_all wf_out (gr_todo t) \<and>
     (gr_id t = None \<or> gr_todo t \<noteq> [] \<and> is_rec (hd (gr_todo t))))"

definition ids_inv :: "nat \<Rightarrow> system \<Rightarrow> bool" where
  "ids_inv k s = (nextEventID (sy_col s) = of_nat k \<and> attrs_ok (sy_col s) \<and> list_all thread_ok (sy_threads s) \<and>
     mset (event_ids (records (sy_col s))) + mset (held (sy_threads s)) = mset (id_range 0 k))"

lemma mset_map_filter_update:
  assumes "i < length xs"
  shows "mset (List.map_filter f (xs[i := y])) + mset (List.map_filter f [xs ! i]) =
    mset (List.map_filter f xs) + mset (List.map_filter f [y])"
  using assms
proof (induction xs arbitrary: i)
  case (Cons x xs)
  then show ?case by (cases i) (auto split: option.splits)
qed simp

lemma id_range_snoc: "id_range n (Suc k) = id_range n k @ [n + of_nat (Suc k)]"
  by (simp add: id_range_def)

lemma ids_inv_internal:
  assumes "ids_inv k s" "internal s s'"
  shows "ids_inv k s' \<or> ids_inv (Suc k) s'"
  using assms(2)
proof (cases rule: internal.cases)
  case (one_thread i ts c t' c')
  note upd = mset_map_filter_update [of i ts gr_id t', OF one_thread(3)]
  have ok: "list_all thread_ok ts" "thread_ok (ts ! i)"
    using assms(1) one_thread(1, 3) by (auto simp: ids_inv_def list_all_length)
  have all: "thread_ok t' \<Longrightarrow> list_all thread_ok (ts[i := t'])"
    using ok(1) by (simp add: list_all_iff) (metis insertE set_update_subset_insert subsetD)
  from one_thread(4) show ?thesis
  proof (cases rule: thread_step.cases)
    case (take_id n event kind rest os)
    then have "ids_inv (Suc k) s'"
      using assms(1) one_thread(1, 2) upd ok(2) all
      by (auto simp: ids_inv_def held_def NextEventID_def Let_def id_range_snoc thread_ok_def attrs_ok_def)
    then show ?thesis ..
  next
    case (write_rec event kind rest os n)
    with upd have "mset (List.map_filter gr_id ts) = add_mset n (mset (List.map_filter gr_id (ts[i := t'])))"
      by simp
    with write_rec have "ids_inv k s'"
      using assms(1) one_thread(1, 2) ok(2) all
      by (auto simp: ids_inv_def held_def thread_ok_def attrs_ok_def)
    then show ?thesis ..
  next
    case (write_line l msg attrs os)
    then have "ids_inv k s'"
      using assms(1) one_thread(1, 2) upd ok(2) all
      by (auto simp: ids_inv_def held_def thread_ok_def attrs_ok_def)
    then show ?thesis ..
  qed
qed

lemma ids_inv_external:
  assumes "ids_inv k s" "external s s'"
  shows "ids_inv k s'"
  using assms(2)
proof (cases rule: external.cases)
  case (swap_attrs attrs ts c)
  with assms(1) show ?thesis by (simp add: ids_inv_def attrs_ok_def SetClusterAttrs_def)
next
  case (hand_over i ts os c)
  let ?t = "(ts ! i)\<lparr>gr_todo := gr_todo (ts ! i) @ os\<rparr>"
  have ok: "list_all thread_ok ts" "thread_ok (ts ! i)"
    using assms(1) hand_over(1, 3) by (auto simp: ids_inv_def list_all_length)
  have "thread_ok ?t" using ok(2) hand_over(4) by (auto simp: thread_ok_def)
  with ok(1) have "list_all thread_ok (ts[i := ?t])"
    by (simp add: list_all_iff) (metis insertE set_update_subset_insert subsetD)
  moreover have "mset (List.map_filter gr_id (ts[i := ?t])) = mset (List.map_filter gr_id ts)"
    using mset_map_filter_update [of i ts gr_id ?t, OF hand_over(3)] by (auto split: option.splits)
  ultimately show ?thesis using assms(1) hand_over(1, 2) by (simp add: ids_inv_def held_def)
qed

lemma ids_inv_reach: "reach n init_collector s \<Longrightarrow> \<exists>k. ids_inv k s"
proof (induction rule: reach.induct)
  case reach_start
  have "List.map_filter gr_id (replicate n \<lparr>gr_todo = [], gr_id = None\<rparr>) = []"
    by (rule map_filter_all_None) auto
  then have "ids_inv 0 (start_system n init_collector)"
    by (auto simp: ids_inv_def start_system_def init_collector_def attrs_ok_def held_def id_range_def
        thread_ok_def list_all_iff)
  then show ?case ..
next
  case (reach_internal s s')
  then show ?case using ids_inv_internal by blast
next
  case (reach_external s s')
  then show ?case using ids_inv_external by blast
qed

text \<open>C8: however the goroutines interleave, no event id is used twice and none is skipped: the ids on the
  lines written and the ids taken for lines still to be written are the numbers from 1 on, each once,
  as long as the 64-bit counter has not gone round.\<close>

theorem event_ids_unique:
  assumes "reach n init_collector s"
    and "ids = event_ids (records (sy_col s)) @ held (sy_threads s)" and "length ids \<le> 2 ^ 64"
  shows "distinct ids \<and> mset ids = mset (map (\<lambda>i. of_nat i) [1..<Suc (length ids)])"
proof -
  from ids_inv_reach [OF assms(1)] obtain k where k: "mset ids = mset (id_range 0 k)"
    by (auto simp: ids_inv_def assms(2))
  then have len: "length ids = k" by (metis length_id_range size_mset)
  with assms(3) have "distinct (id_range 0 k)" by (intro distinct_id_range) simp
  with k have "distinct ids" by (metis distinct_count_atmost_1 set_mset_mset)
  moreover have "id_range 0 k = map (\<lambda>i. of_nat i) [1..<Suc k]"
    by (simp add: id_range_def map_Suc_upt [symmetric] del: upt_Suc)
  ultimately show ?thesis using k len by simp
qed

subsection \<open>The next step of a goroutine, as a function\<close>

definition thread_next :: "goroutine \<Rightarrow> collector \<Rightarrow> (goroutine \<times> collector) option" where
  "thread_next t c =
     (case (gr_todo t, gr_id t) of
        (ORec event kind rest # os, None) \<Rightarrow>
          (case NextEventID c of (n, c') \<Rightarrow> Some (\<lparr>gr_todo = ORec event kind rest # os, gr_id = Some n\<rparr>, c'))
      | (ORec event kind rest # os, Some n) \<Rightarrow>
          Some (\<lparr>gr_todo = os, gr_id = None\<rparr>,
            Log_at LInfo event ((''kind'', AStr kind) # (''event_id'', AU64 n) # rest) c)
      | (OLog l msg attrs # os, None) \<Rightarrow> Some (\<lparr>gr_todo = os, gr_id = None\<rparr>, Log_at l msg attrs c)
      | _ \<Rightarrow> None)"

lemma thread_next_step: "thread_next t c = Some (t', c') \<Longrightarrow> thread_step t c t' c'"
proof (cases t)
  case (fields todo held_id)
  moreover assume "thread_next t c = Some (t', c')"
  ultimately show ?thesis
    by (cases todo; cases held_id)
      (auto simp: thread_next_def simp del: Log_at_eq split: out.splits prod.splits intro: thread_step.intros)
qed

lemma thread_step_next: "thread_step t c t' c' \<Longrightarrow> thread_next t c = Some (t', c')"
  by (induction rule: thread_step.induct) (simp_all add: thread_next_def del: Log_at_eq)

fun schedule :: "nat list \<Rightarrow> system \<Rightarrow> system" where
  "schedule [] s = s"
| "schedule (i # is) s =
     (if i < length (sy_threads s)
      then (case thread_next (sy_threads s ! i) (sy_col s) of
          Some (t, c) \<Rightarrow> schedule is \<lparr>sy_threads = (sy_threads s)[i := t], sy_col = c\<rparr>
        | None \<Rightarrow> schedule is s)
      else schedule is s)"

lemma internal_next:
  "i < length (sy_threads s) \<Longrightarrow> thread_next (sy_threads s ! i) (sy_col s) = Some (t, c) \<Longrightarrow>
   internal s \<lparr>sy_threads = (sy_threads s)[i := t], sy_col = c\<rparr>"
  by (cases s) (auto intro: internal.one_thread thread_next_step)

lemma reach_schedule: "reach n c s \<Longrightarrow> reach n c (schedule is s)"
proof (induction "is" s rule: schedule.induct)
  case (2 i "is" s)
  show ?case
  proof (cases "i < length (sy_threads s) \<and> thread_next (sy_threads s ! i) (sy_col s) \<noteq> None")
    case True
    then obtain t c' where next_eq: "thread_next (sy_threads s ! i) (sy_col s) = Some (t, c')"
      and i: "i < length (sy_threads s)" by auto
    from reach_internal [OF "2.prems" internal_next [OF i next_eq]] "2.IH"(2) [OF i next_eq refl] i next_eq
    show ?thesis by simp
  qed (use 2 in \<open>auto split: option.split\<close>)
qed simp

subsection \<open>Two goroutines\<close>

text \<open>
  Lines may come out in another order than their ids: here the second goroutine overtakes the first
  between the two halves of its emission.  This is why the highest id of a batch is searched for
  among all its lines.
\<close>

definition crossed :: system where
  "crossed = schedule [0, 1, 1, 0]
     \<lparr>sy_threads = [\<lparr>gr_todo = [ORec ''ADD'' ''Service'' []], gr_id = None\<rparr>,
        \<lparr>gr_todo = [ORec ''ADD'' ''Ingress'' []], gr_id = None\<rparr>], sy_col = init_collector\<rparr>"

lemma crossed_reach: "reach 2 init_collector crossed"
proof -
  let ?g = "\<lambda>os. \<lparr>gr_todo = os, gr_id = None\<rparr>"
  let ?a = "[ORec ''ADD'' ''Service'' []]" and ?b = "[ORec ''ADD'' ''Ingress'' []]"
  have "reach 2 init_collector \<lparr>sy_threads = [?g [], ?g []], sy_col = init_collector\<rparr>"
    using reach_start [of 2 init_collector] by (simp add: start_system_def numeral_2_eq_2)
  moreover have "external \<lparr>sy_threads = [?g [], ?g []], sy_col = init_collector\<rparr>
      \<lparr>sy_threads = [?g ?a, ?g []], sy_col = init_collector\<rparr>"
    using hand_over [of 0 "[?g [], ?g []]" ?a init_collector] by simp
  moreover have "external \<lparr>sy_threads = [?g ?a, ?g []], sy_col = init_collector\<rparr>
      \<lparr>sy_threads = [?g ?a, ?g ?b], sy_col = init_collector\<rparr>"
    using hand_over [of 1 "[?g ?a, ?g []]" ?b init_collector] by simp
  ultimately show ?thesis
    unfolding crossed_def by (blast intro: reach_external reach_schedule)
qed

lemma crossed_ids: "event_ids (records (sy_col crossed)) = [2, 1]" "held (sy_threads crossed) = []"
  by (simp_all add: crossed_def thread_next_def NextEventID_def init_collector_def held_def
      event_ids_def eid_def)

theorem event_ids_unique_witness:
  "distinct [2, 1 :: u64] \<and> event_ids (records (sy_col crossed)) = [2, 1]"
  using event_ids_unique [OF crossed_reach refl] by (simp add: crossed_ids)

subsection \<open>Uninterrupted operations\<close>

text \<open>
  An operation that runs without being interrupted is one of the schedules: what the other theories
  describe as one function on the package state is a run of the system.
\<close>

lemma uninterrupted:
  assumes "i < length ts" and "ts ! i = \<lparr>gr_todo = os @ rest, gr_id = None\<rparr>"
  shows "internal\<^sup>*\<^sup>* \<lparr>sy_threads = ts, sy_col = c\<rparr>
    \<lparr>sy_threads = ts[i := \<lparr>gr_todo = rest, gr_id = None\<rparr>], sy_col = log_outs os c\<rparr>"
  using assms
proof (induction os arbitrary: ts c)
  case Nil
  then have "ts[i := \<lparr>gr_todo = rest, gr_id = None\<rparr>] = ts" by (metis append_Nil list_update_id)
  then show ?case by simp
next
  case (Cons x os)
  let ?g = "\<lambda>td h. \<lparr>gr_todo = td, gr_id = h\<rparr>"
  have one: "internal\<^sup>*\<^sup>* \<lparr>sy_threads = ts, sy_col = c\<rparr>
      \<lparr>sy_threads = ts[i := ?g (os @ rest) None], sy_col = log_out x c\<rparr>"
  proof (cases x)
    case (ORec event kind r)
    obtain n c1 where id: "NextEventID c = (n, c1)" by (cases "NextEventID c")
    have "internal \<lparr>sy_threads = ts, sy_col = c\<rparr>
        \<lparr>sy_threads = ts[i := ?g (x # os @ rest) (Some n)], sy_col = c1\<rparr>"
      using Cons.prems ORec id by (intro one_thread) (simp_all add: take_id)
    moreover have "internal \<lparr>sy_threads = ts[i := ?g (x # os @ rest) (Some n)], sy_col = c1\<rparr>
        \<lparr>sy_threads = ts[i := ?g (os @ rest) None], sy_col = log_out x c\<rparr>"
      using one_thread [of i "ts[i := ?g (x # os @ rest) (Some n)]" c1 "?g (os @ rest) None" "log_out x c"]
        Cons.prems(1) write_rec [of event kind r "os @ rest" n c1]
      by (simp add: ORec log_event_def id del: Log_at_eq)
    ultimately show ?thesis by simp
  next
    case (OLog l msg attrs)
    have "internal \<lparr>sy_threads = ts, sy_col = c\<rparr>
        \<lparr>sy_threads = ts[i := ?g (os @ rest) None], sy_col = log_out x c\<rparr>"
      using Cons.prems write_line [of l msg attrs "os @ rest" c] OLog
      by (intro one_thread) (simp_all del: Log_at_eq)
    then show ?thesis by simp
  qed
  have "internal\<^sup>*\<^sup>* \<lparr>sy_threads = ts[i := ?g (os @ rest) None], sy_col = log_out x c\<rparr>
      \<lparr>sy_threads = (ts[i := ?g (os @ rest) None])[i := ?g rest None], sy_col = log_outs os (log_out x c)\<rparr>"
    using Cons.prems(1) by (intro Cons.IH) simp_all
  with one show ?case by (simp add: log_outs_Cons)
qed

end
