(* ===== verification/Agent.thy ===== *)
theory Agent
  imports Snapshot Push Heartbeat Ror Interleaving
begin

section \<open>Startup and wiring: main.go\<close>

text \<open>
  \<open>main\<close> finds out which cluster it runs in, starts the loops beside it, registers the
  handlers, waits for the caches, opens the gate for live events and logs the initial snapshot; after
  that it only waits for a signal.  The model has three parts: the dispatch of notifications to the
  registered handlers, the sequential setup up to the first \<^verbatim>\<open>go\<close> statement as a
  function, and from there on a step relation, in which main is one goroutine among the handlers and
  loops it has started.
\<close>

subsection \<open>Dispatch\<close>

text \<open>
  The informers, by the order of their registration.  A handler is registered per discovered
  custom resource, and none for replica sets.
\<close>

datatype source =
    SPod | SReplicaSet | SService | SEndpointSlice | SIngress | SIngressClass
  | SGateway gvr | STraefik gvr

definition dispatch ::
  "kapi \<Rightarrow> gvr list \<Rightarrow> gvr list \<Rightarrow> rs_lister \<Rightarrow> refs \<Rightarrow> bool \<Rightarrow> source \<Rightarrow> notification \<Rightarrow>
   collector \<Rightarrow> collector" where
  "dispatch K gwGVRs trGVRs rsl R synced src n c =
     (case src of
        SPod \<Rightarrow> OnEvents as_Pod (\<lambda>event newP oldP c. snd (EmitPod rsl event newP oldP c)) (EmitPodDelete rsl) synced n c
      | SReplicaSet \<Rightarrow> c
      | SService \<Rightarrow> OnEvents as_Service (\<lambda>event s _ c. EmitService event s c) EmitServiceDelete synced n c
      | SEndpointSlice \<Rightarrow>
          OnEvents as_EndpointSlice (\<lambda>event es _ c. EmitEndpointSlice event es c) EmitEndpointSliceDelete synced n c
      | SIngress \<Rightarrow> OnEvents as_Ingress (on_ingress R) EmitIngressDelete synced n c
      | SIngressClass \<Rightarrow>
          OnEvents as_IngressClass (\<lambda>event ic _ c. EmitIngressClass event ic c) EmitIngressClassDelete synced n c
      | SGateway g \<Rightarrow>
          if g \<in> set gwGVRs
          then OnEvents as_Unstructured (on_gateway K R g) (EmitGatewayAPIDelete K g) synced n c else c
      | STraefik g \<Rightarrow>
          if g \<in> set trGVRs
          then OnEvents as_Unstructured (on_traefik K R g) (EmitTraefikDelete K g) synced n c else c)"

definition dispatch_outs ::
  "kapi \<Rightarrow> gvr list \<Rightarrow> gvr list \<Rightarrow> rs_lister \<Rightarrow> refs \<Rightarrow> bool \<Rightarrow> source \<Rightarrow> notification \<Rightarrow> out list" where
  "dispatch_outs K gwGVRs trGVRs rsl R synced src n =
     (case src of
        SPod \<Rightarrow> pod_events.handler_outs rsl synced n
      | SReplicaSet \<Rightarrow> []
      | SService \<Rightarrow> service_events.handler_outs synced n
      | SEndpointSlice \<Rightarrow> endpoint_slice_events.handler_outs synced n
      | SIngress \<Rightarrow> ingress_events.handler_outs R synced n
      | SIngressClass \<Rightarrow> ingress_class_events.handler_outs synced n
      | SGateway g \<Rightarrow> if g \<in> set gwGVRs then gateway_events.handler_outs K R g synced n else []
      | STraefik g \<Rightarrow> if g \<in> set trGVRs then traefik_events.handler_outs K g R synced n else [])"

lemma dispatch_logs:
  "dispatch K gwGVRs trGVRs rsl R synced src n c =
     log_outs (dispatch_outs K gwGVRs trGVRs rsl R synced src n) c"
  by (cases src)
    (simp_all add: dispatch_def dispatch_outs_def pod_events.OnEvents_outs service_events.OnEvents_outs
      endpoint_slice_events.OnEvents_outs ingress_events.OnEvents_outs ingress_class_events.OnEvents_outs
      gateway_events.OnEvents_outs traefik_events.OnEvents_outs)

lemma dispatch_outs_rec: "list_all is_rec (dispatch_outs K gwGVRs trGVRs rsl R synced src n)"
  by (cases src)
    (simp_all add: dispatch_outs_def pod_events.handler_outs_rec service_events.handler_outs_rec
      endpoint_slice_events.handler_outs_rec ingress_events.handler_outs_rec
      ingress_class_events.handler_outs_rec gateway_events.handler_outs_rec traefik_events.handler_outs_rec)

lemma notification_gate_closed: "dispatch K gws trs rsl R False src n = (\<lambda>c. c)"
  by (cases src; cases n) (simp_all add: dispatch_def OnEvents_def fun_eq_iff)

text \<open>C9: before the caches are synced a notification logs nothing; after that it logs the records of the one
  handler its informer has, and nothing for an informer without handler, a custom resource that was
  not discovered, or an object of another type; every line it logs is a record with an event id.\<close>

theorem notification_gate:
  "dispatch K gwGVRs trGVRs rsl R synced src n c =
     (if synced then log_outs (dispatch_outs K gwGVRs trGVRs rsl R True src n) c else c) \<and>
   list_all is_rec (dispatch_outs K gwGVRs trGVRs rsl R True src n) \<and>
   dispatch_outs K gwGVRs trGVRs rsl R True src (NAdd (OOther t)) = [] \<and>
   dispatch_outs K gwGVRs trGVRs rsl R True SReplicaSet n = [] \<and>
   dispatch_outs K gwGVRs [] rsl R True (STraefik g) n = []"
proof -
  have off: "dispatch_outs K gwGVRs trGVRs rsl R False src n = []"
    by (cases src) (simp_all add: dispatch_outs_def pod_events.handler_outs_def service_events.handler_outs_def
        endpoint_slice_events.handler_outs_def ingress_events.handler_outs_def
        ingress_class_events.handler_outs_def gateway_events.handler_outs_def traefik_events.handler_outs_def)
  have other: "dispatch_outs K gwGVRs trGVRs rsl R True src (NAdd (OOther t)) = []"
    by (cases src) (simp_all add: dispatch_outs_def pod_events.handler_outs_def service_events.handler_outs_def
        endpoint_slice_events.handler_outs_def ingress_events.handler_outs_def
        ingress_class_events.handler_outs_def gateway_events.handler_outs_def traefik_events.handler_outs_def
        as_Pod_def as_Service_def as_EndpointSlice_def as_Ingress_def as_IngressClass_def as_Unstructured_def)
  show ?thesis
    using off other by (simp add: dispatch_logs dispatch_outs_rec) (simp add: dispatch_outs_def)
qed

subsection \<open>Setup\<close>

text \<open>
  What startup depends on: the environment, the outcome of loading the configuration and building
  the clients (\<^const>\<open>None\<close> for success, else the error), the ROR services, the UID of the
  kube-system namespace if it can be read, what the server offers (with the order the version map is
  walked in), whether the caches sync before the context is cancelled, and what the initial snapshot
  reads from them.
\<close>

record boot_world =
  bw_getenv :: "string \<Rightarrow> string"
  bw_parse_float :: "string \<Rightarrow> go_float option"
  bw_render_float :: "go_float \<Rightarrow> aval"
  bw_parse_duration :: "string \<Rightarrow> i64 option"
  bw_build :: "string \<times> string"
  bw_config_err :: "string option"
  bw_clientset_err :: "string option"
  bw_dynamic_err :: "string option"
  bw_discovery_err :: "string option"
  bw_ror :: ror_world
  bw_kube_system :: "string option"
  bw_disc :: "string \<Rightarrow> disc_result"
  bw_version_order :: "string list"
  bw_syncs :: bool
  bw_typed :: SnapshotResources
  bw_custom :: "gvr \<Rightarrow> anyobj list"
  bw_replica_sets :: rs_lister
  bw_now_ms :: u64
  bw_rnd :: "8 word list"

definition callcenterURL :: "boot_world \<Rightarrow> string" where
  "callcenterURL w = trim_space (bw_getenv w ''CALLCENTER_URL'')"

definition kubeSystemUID :: "boot_world \<Rightarrow> unit \<Rightarrow> string" where
  "kubeSystemUID w u = (case bw_kube_system w of Some uid \<Rightarrow> uid | None \<Rightarrow> [])"

definition main_clusterID :: "boot_world \<Rightarrow> string" where
  "main_clusterID w = fst (resolveClusterID (bw_getenv w) (kubeSystemUID w))"

definition boot_identity :: "boot_world \<Rightarrow> collector \<Rightarrow> rorIdentity \<times> collector" where
  "boot_identity w c =
     (let endpoint = rorEndpoint (bw_getenv w)
      in if endpoint \<noteq> [] then ror_lookup (bw_getenv w) endpoint (bw_ror w) c else (no_identity, c))"

text \<open>
  The part of main before it starts any goroutine: an exit code, or the identity found.  The banner
  on the terminal is left out.
\<close>

definition boot_setup :: "boot_world \<Rightarrow> collector \<Rightarrow> (int + rorIdentity) \<times> collector" where
  "boot_setup w c =
     (case bw_config_err w of
        Some err \<Rightarrow> (Inl 1, Log_at LError ''load kube config'' [(''err'', AStr err)] c)
      | None \<Rightarrow>
          (let (qps, c) = envFloat32 (bw_parse_float w) (bw_render_float w) (bw_getenv w)
                 ''KUBE_CLIENT_QPS'' (Finite 5) c;
               (burst, c) = envInt (bw_getenv w) ''KUBE_CLIENT_BURST'' 10 c
           in case bw_clientset_err w of
                Some err \<Rightarrow> (Inl 1, Log_at LError ''build clientset'' [(''err'', AStr err)] c)
              | None \<Rightarrow>
                  (let (ror, c) = boot_identity w c;
                       clusterName = resolveClusterName (bw_getenv w) (ror_Name ror);
                       environment = resolveEnvironment (bw_getenv w) (ror_Env ror);
                       c = SetClusterAttrs (clusterAttrSet (fst (bw_build w)) (snd (bw_build w))
                             clusterName (main_clusterID w) environment ror) c
                   in case bw_dynamic_err w of
                        Some err \<Rightarrow> (Inl 1, Log_at LError ''build dynamic client'' [(''err'', AStr err)] c)
                      | None \<Rightarrow>
                          (case bw_discovery_err w of
                             Some err \<Rightarrow> (Inl 1, Log_at LError ''build discovery client'' [(''err'', AStr err)] c)
                           | None \<Rightarrow> (Inr ror, c)))))"

subsection \<open>Main after the setup\<close>

text \<open>
  What main does from the discovery of the custom resources on: calls that log, the opening of the
  gate, the start of the snapshot and push loops, the wait for a signal, the return.
\<close>

datatype main_step = MCall "collector \<Rightarrow> collector" | MOpen | MStart | MWait | MExit int

definition gwGVRs :: "kapi \<Rightarrow> boot_world \<Rightarrow> gvr list" where
  "gwGVRs K w = DiscoverGatewayAPI K (bw_disc w) (bw_version_order w)"

definition trGVRs :: "kapi \<Rightarrow> boot_world \<Rightarrow> gvr list" where
  "trGVRs K w = DiscoverTraefik K (bw_disc w)"

text \<open>The map from \<open>gvr.String()\<close> to the informer, filled in the order of the list.\<close>

definition informer_map :: "(gvr \<Rightarrow> string) \<Rightarrow> (gvr \<Rightarrow> anyobj list) \<Rightarrow> gvr list \<Rightarrow> (string \<rightharpoonup> anyobj list)" where
  "informer_map gvr_string cache gvrs = fold (\<lambda>g m. m(gvr_string g \<mapsto> cache g)) gvrs Map.empty"

definition main_resources :: "kapi \<Rightarrow> (gvr \<Rightarrow> string) \<Rightarrow> boot_world \<Rightarrow> SnapshotResources" where
  "main_resources K gvr_string w = (bw_typed w)\<lparr>
     sr_GatewayAPI := BuildDynamicSnapshots gvr_string (gwGVRs K w) (informer_map gvr_string (bw_custom w) (gwGVRs K w)),
     sr_Traefik := BuildDynamicSnapshots gvr_string (trGVRs K w) (informer_map gvr_string (bw_custom w) (trGVRs K w))\<rparr>"

definition announce :: "kapi \<Rightarrow> string \<Rightarrow> string \<Rightarrow> gvr list \<Rightarrow> collector \<Rightarrow> collector" where
  "announce K found missing gvrs c =
     (if length gvrs > 0 then Log_at LInfo found [(''resources'', str_list (GvrStrings K gvrs))] c
      else Log_at LInfo missing [] c)"

definition main_program :: "kapi \<Rightarrow> (gvr \<Rightarrow> string) \<Rightarrow> boot_world \<Rightarrow> main_step list" where
  "main_program K gvr_string w =
     [MCall (announce K ''gateway API detected'' ''gateway API CRDs not installed; skipping'' (gwGVRs K w)),
      MCall (announce K ''traefik CRDs detected'' ''traefik CRDs not installed; skipping'' (trGVRs K w)),
      MCall (Log_at LInfo ''waiting for cache sync'' [])] @
     (if \<not> bw_syncs w then [MCall (Log_at LError ''cache sync aborted'' []), MExit 1]
      else
        [MOpen,
         MCall (EmitFullSnapshot K (bw_replica_sets w) (main_resources K gvr_string w) ''init'' (bw_now_ms w) (bw_rnd w)),
         MCall (Log_at LInfo ''streaming events'' []),
         MStart, MWait,
         MCall (Log_at LInfo ''shutdown'' []), MExit 0])"

subsection \<open>The goroutines\<close>

text \<open>
  The state from the first \<^verbatim>\<open>go\<close> statement on: the goroutines with the lines they have still
  to write and the log (theory Interleaving), what main has yet to do, the gate, whether the
  snapshot and push loops run, the exit code once main has returned, the identity the ROR loop holds
  and the outcome of its lookup while a round is going on, and the variables of the heartbeat loop.
  Goroutine 0 is main, 1 the ROR loop, 2 the heartbeat loop; the others are the handlers, and the
  snapshot and push loops.
\<close>

record agent =
  ag_sys :: system
  ag_main :: "main_step list"
  ag_synced :: bool
  ag_started :: bool
  ag_exit :: "int option"
  ag_ror :: rorIdentity
  ag_found :: "rorIdentity option"
  ag_heartbeat :: heartbeat

abbreviation ag_log :: "agent \<Rightarrow> collector" where
  "ag_log s \<equiv> sy_col (ag_sys s)"

definition start_agent :: "kapi \<Rightarrow> (gvr \<Rightarrow> string) \<Rightarrow> boot_world \<Rightarrow> nat \<Rightarrow> rorIdentity \<Rightarrow> collector \<Rightarrow> agent" where
  "start_agent K gvr_string w n ror c =
     \<lparr>ag_sys = start_system (n + 3) c, ag_main = main_program K gvr_string w, ag_synced = False,
      ag_started = False, ag_exit = None, ag_ror = ror, ag_found = None, ag_heartbeat = init_heartbeat\<rparr>"

definition idle :: "agent \<Rightarrow> nat \<Rightarrow> bool" where
  "idle s i \<longleftrightarrow> ag_exit s = None \<and> i < length (sy_threads (ag_sys s)) \<and>
     sy_threads (ag_sys s) ! i = \<lparr>gr_todo = [], gr_id = None\<rparr>"

definition give :: "nat \<Rightarrow> out list \<Rightarrow> agent \<Rightarrow> agent" where
  "give i os s = s\<lparr>ag_sys := (ag_sys s)\<lparr>sy_threads := (sy_threads (ag_sys s))[i := \<lparr>gr_todo = os, gr_id = None\<rparr>]\<rparr>\<rparr>"

text \<open>Whether the ROR loop and the heartbeat loop get past their first tests.\<close>

definition ror_refreshes :: "boot_world \<Rightarrow> bool" where
  "ror_refreshes w \<longleftrightarrow> rorEndpoint (bw_getenv w) \<noteq> [] \<and>
     fst (resolveRorRefreshInterval (map_option sint \<circ> bw_parse_duration w) (bw_getenv w) init_collector) > 0"

definition heartbeat_interval :: "boot_world \<Rightarrow> i64" where
  "heartbeat_interval w = fst (resolveHeartbeatInterval (bw_parse_duration w) (bw_getenv w) init_collector)"

definition heartbeat_endpoint :: "boot_world \<Rightarrow> string" where
  "heartbeat_endpoint w = trim_right (callcenterURL w) ''/'' @ ''/api/scam/heartbeat''"

text \<open>
  A step: a goroutine takes an id or writes a line; main makes its next call, opens the gate, starts
  the loops, gets its signal or returns; an informer's handler is called, with what the listers
  answer while it runs; the ROR loop makes a lookup, and then swaps the identity or keeps it; the
  heartbeat timer fires; a periodic or triggered reconcile snapshot reads the caches; a loop
  writes lines about its own work (its schedule, a failed push, an invalid setting).
\<close>

inductive agent_step :: "kapi \<Rightarrow> boot_world \<Rightarrow> agent \<Rightarrow> agent \<Rightarrow> bool"
  for K :: kapi and w :: boot_world where
  run: "ag_exit s = None \<Longrightarrow> internal (ag_sys s) y \<Longrightarrow> agent_step K w s (s\<lparr>ag_sys := y\<rparr>)"
| main_call: "idle s 0 \<Longrightarrow> ag_main s = MCall f # ms \<Longrightarrow> call_logs f os \<Longrightarrow>
    agent_step K w s (give 0 os s\<lparr>ag_main := ms\<rparr>)"
| main_open: "idle s 0 \<Longrightarrow> ag_main s = MOpen # ms \<Longrightarrow>
    agent_step K w s (s\<lparr>ag_main := ms, ag_synced := True\<rparr>)"
| main_start: "idle s 0 \<Longrightarrow> ag_main s = MStart # ms \<Longrightarrow>
    agent_step K w s (s\<lparr>ag_main := ms, ag_started := True\<rparr>)"
| main_wait: "idle s 0 \<Longrightarrow> ag_main s = MWait # ms \<Longrightarrow> agent_step K w s (s\<lparr>ag_main := ms\<rparr>)"
| main_exit: "idle s 0 \<Longrightarrow> ag_main s = MExit code # ms \<Longrightarrow>
    agent_step K w s (s\<lparr>ag_main := ms, ag_exit := Some code\<rparr>)"
| notify: "idle s i \<Longrightarrow> 2 < i \<Longrightarrow>
    call_logs (dispatch K (gwGVRs K w) (trGVRs K w) rsl R (ag_synced s) src n) os \<Longrightarrow>
    agent_step K w s (give i os s)"
| ror_ask: "idle s 1 \<Longrightarrow> ror_refreshes w \<Longrightarrow> ag_found s = None \<Longrightarrow>
    ror_lookup (bw_getenv w) (rorEndpoint (bw_getenv w)) rw = (\<lambda>c. (ident, log_outs os c)) \<Longrightarrow>
    list_all operational os \<Longrightarrow>
    agent_step K w s (give 1 os s\<lparr>ag_found := Some ident\<rparr>)"
| ror_swap: "idle s 1 \<Longrightarrow> ag_found s = Some ident \<Longrightarrow> ident \<noteq> no_identity \<Longrightarrow> ident \<noteq> ag_ror s \<Longrightarrow>
    agent_step K w s (give 1 [updated_out (bw_getenv w) (ag_ror s) ident] s
      \<lparr>ag_sys := (ag_sys (give 1 [updated_out (bw_getenv w) (ag_ror s) ident] s))
         \<lparr>sy_col := SetClusterAttrs (identity_attrs (bw_build w) (bw_getenv w) (main_clusterID w) ident) (ag_log s)\<rparr>,
       ag_ror := ident, ag_found := None\<rparr>)"
| ror_keep: "idle s 1 \<Longrightarrow> ag_found s = Some ident \<Longrightarrow> ident = no_identity \<or> ident = ag_ror s \<Longrightarrow>
    agent_step K w s (s\<lparr>ag_found := None\<rparr>)"
| heartbeat: "idle s 2 \<Longrightarrow> callcenterURL w \<noteq> [] \<Longrightarrow> main_clusterID w \<noteq> [] \<Longrightarrow>
    hb_tick (heartbeat_endpoint w) (heartbeat_interval w) t (ag_heartbeat s) = (hb, os, delay) \<Longrightarrow>
    agent_step K w s (give 2 os s\<lparr>ag_heartbeat := hb\<rparr>)"
| reconcile: "idle s i \<Longrightarrow> 2 < i \<Longrightarrow> ag_started s \<Longrightarrow>
    call_logs (EmitFullSnapshot K rsl rs ''reconcile'' now_ms rnd) os \<Longrightarrow>
    agent_step K w s (give i os s)"
| diagnostics: "idle s i \<Longrightarrow> 0 < i \<Longrightarrow> list_all operational os \<Longrightarrow>
    agent_step K w s (give i os s)"

inductive agent_reach :: "kapi \<Rightarrow> boot_world \<Rightarrow> agent \<Rightarrow> agent \<Rightarrow> bool"
  for K :: kapi and w :: boot_world and s0 :: agent where
  agent_start: "agent_reach K w s0 s0"
| agent_next: "agent_reach K w s0 s \<Longrightarrow> agent_step K w s s' \<Longrightarrow> agent_reach K w s0 s'"

subsection \<open>What the calls log\<close>

lemma log_logs: "line_ok (OLog l msg attrs) \<Longrightarrow> call_logs (Log_at l msg attrs) [OLog l msg attrs]"
  by (simp add: call_logs_def fun_eq_iff log_outs_Cons del: Log_at_eq)

definition announce_outs :: "kapi \<Rightarrow> string \<Rightarrow> string \<Rightarrow> gvr list \<Rightarrow> out list" where
  "announce_outs K found missing gvrs =
     [if length gvrs > 0 then OLog LInfo found [(''resources'', str_list (GvrStrings K gvrs))]
      else OLog LInfo missing []]"

lemma announce_logs: "call_logs (announce K found missing gvrs) (announce_outs K found missing gvrs)"
  by (simp add: call_logs_def fun_eq_iff log_outs_Cons announce_def announce_outs_def del: Log_at_eq)

lemma dispatch_call_logs: "call_logs (dispatch K gws trs rsl R synced src n) (dispatch_outs K gws trs rsl R synced src n)"
  using rec_line_ok [OF dispatch_outs_rec] by (simp add: call_logs_def fun_eq_iff dispatch_logs)

lemma dispatch_closed: "call_logs (dispatch K gws trs rsl R False src n) os \<Longrightarrow> os = []"
  using notification_gate_closed call_logs_nothing by metis

text \<open>The lines of main, call by call.\<close>

fun calls :: "main_step list \<Rightarrow> (collector \<Rightarrow> collector) list" where
  "calls [] = []"
| "calls (MCall f # ms) = f # calls ms"
| "calls (m # ms) = calls ms"

definition main_lines :: "kapi \<Rightarrow> (gvr \<Rightarrow> string) \<Rightarrow> boot_world \<Rightarrow> out list list" where
  "main_lines K gvr_string w =
     [announce_outs K ''gateway API detected'' ''gateway API CRDs not installed; skipping'' (gwGVRs K w),
      announce_outs K ''traefik CRDs detected'' ''traefik CRDs not installed; skipping'' (trGVRs K w),
      [OLog LInfo ''waiting for cache sync'' []]] @
     (if \<not> bw_syncs w then [[OLog LError ''cache sync aborted'' []]]
      else [snapshot_outs K (bw_replica_sets w) (main_resources K gvr_string w) ''init''
              (newSnapshotID (bw_now_ms w) (bw_rnd w)),
            [OLog LInfo ''streaming events'' []], [OLog LInfo ''shutdown'' []]])"

lemma main_lines_logged: "list_all2 call_logs (calls (main_program K gvr_string w)) (main_lines K gvr_string w)"
  by (simp add: main_program_def main_lines_def announce_logs log_logs EmitFullSnapshot_logs)

subsection \<open>Invariants of the goroutines\<close>

text \<open>
  The event ids: the invariant of theory Interleaving is kept by every step, the handing over of lines and
  the swap of the attributes being the external events it allows.
\<close>

lemma give_fields [simp]:
  "ag_main (give i os s) = ag_main s" "ag_synced (give i os s) = ag_synced s"
  "ag_started (give i os s) = ag_started s" "ag_exit (give i os s) = ag_exit s" "ag_ror (give i os s) = ag_ror s"
  "ag_found (give i os s) = ag_found s" "ag_log (give i os s) = ag_log s"
  "sy_threads (ag_sys (give i os s)) = (sy_threads (ag_sys s))[i := \<lparr>gr_todo = os, gr_id = None\<rparr>]"
  by (simp_all add: give_def)

lemma give_ids:
  assumes "ids_inv k (ag_sys s)" "idle s i" "list_all line_ok os"
  shows "ids_inv k (ag_sys (give i os s))"
proof -
  have "external (ag_sys s) (ag_sys (give i os s))"
    using hand_over [of i "sy_threads (ag_sys s)" os "ag_log s"] assms(2) line_ok_wf [OF assms(3)]
    by (cases "ag_sys s") (simp add: idle_def give_def)
  with assms(1) show ?thesis by (rule ids_inv_external)
qed

lemma swap_ids:
  assumes "ids_inv k y" "''event_id'' \<notin> fst ` set as"
  shows "ids_inv k (y\<lparr>sy_col := SetClusterAttrs as (sy_col y)\<rparr>)"
  using ids_inv_external [OF assms(1)] swap_attrs [OF assms(2), of "sy_threads y" "sy_col y"] by (cases y) auto

lemma heartbeat_operational: "list_all operational (fst (snd (hb_tick endpoint interval t hb)))"
  by (auto simp: hb_tick_def Let_def split: prod.split option.split)

lemma heartbeat_lines: "hb_tick endpoint interval t hb = (hb', os, delay) \<Longrightarrow> list_all line_ok os \<and> n_recs os = 0"
  using heartbeat_operational [of endpoint interval t hb] operational_line_ok by fastforce

lemma updated_lines: "list_all line_ok [updated_out getenv current ident]" "n_recs [updated_out getenv current ident] = 0"
  by (simp_all add: updated_out_def)

lemma call_lines: "call_logs f os \<Longrightarrow> list_all line_ok os"
  by (simp add: call_logs_def)

lemma step_ids:
  assumes "agent_step K w s s'" "ids_inv k (ag_sys s)"
  shows "\<exists>k. ids_inv k (ag_sys s')"
  using assms(1)
proof cases
  case (run y)
  with assms(2) ids_inv_internal show ?thesis by (metis agent.simps(1) agent.surjective agent.update_convs(1))
next
  case (ror_swap ident)
  let ?s = "give 1 [updated_out (bw_getenv w) (ag_ror s) ident] s"
  have "ids_inv k (ag_sys ?s)" by (rule give_ids [OF assms(2) ror_swap(2) updated_lines(1)])
  from swap_ids [OF this, of "identity_attrs (bw_build w) (bw_getenv w) (main_clusterID w) ident"]
  have "ids_inv k (ag_sys s')"
    using ror_swap(1) by (simp add: identity_attrs_def attr_set_no_event_id)
  then show ?thesis ..
qed (use assms(2) give_ids heartbeat_lines call_lines operational_line_ok in \<open>simp; blast\<close>)+

text \<open>
  The gate: while it is closed, no goroutine has a record to write; main has its gate still before it
  exactly as long as it is closed, and the loops run only with the gate open.
\<close>

definition quiet_sys :: "system \<Rightarrow> bool" where
  "quiet_sys y \<longleftrightarrow> nextEventID (sy_col y) = 0 \<and> event_ids (records (sy_col y)) = [] \<and>
     list_all (\<lambda>t. gr_id t = None \<and> n_recs (gr_todo t) = 0) (sy_threads y)"

definition main_inv :: "kapi \<Rightarrow> (gvr \<Rightarrow> string) \<Rightarrow> boot_world \<Rightarrow> agent \<Rightarrow> bool" where
  "main_inv K gvr_string w s \<longleftrightarrow> suffix (ag_main s) (main_program K gvr_string w) \<and>
     (ag_synced s \<longleftrightarrow> bw_syncs w \<and> MOpen \<notin> set (ag_main s)) \<and>
     (ag_started s \<longleftrightarrow> bw_syncs w \<and> MStart \<notin> set (ag_main s)) \<and>
     (case ag_exit s of None \<Rightarrow> True | Some code \<Rightarrow> code = (if bw_syncs w then 0 else 1) \<and> ag_main s = [])"

lemma step_main:
  assumes "agent_step K w s s'" "main_inv K gvr_string w s"
  shows "main_inv K gvr_string w s'"
  using assms by (cases; auto simp: main_inv_def main_program_def suffix_Cons idle_def split: if_splits)

lemma quiet_internal:
  assumes "internal y y'" "quiet_sys y" "ids_inv k y"
  shows "quiet_sys y'"
  using assms(1)
proof cases
  case (one_thread i ts c t' c')
  from assms(2) one_thread have t: "gr_id (ts ! i) = None" "n_recs (gr_todo (ts ! i)) = 0"
    by (auto simp: quiet_sys_def list_all_length)
  have ok: "thread_ok (ts ! i)" "attrs_ok c"
    using assms(3) one_thread by (auto simp: ids_inv_def list_all_length)
  from one_thread(4) obtain l msg attrs os where line: "ts ! i = \<lparr>gr_todo = OLog l msg attrs # os, gr_id = None\<rparr>"
    "t' = \<lparr>gr_todo = os, gr_id = None\<rparr>" "c' = Log_at l msg attrs c"
    using t by cases auto
  have "list_all (\<lambda>t. gr_id t = None \<and> n_recs (gr_todo t) = 0) (ts[i := t'])"
    using assms(2) one_thread(1) t line
    by (auto simp: quiet_sys_def list_all_iff dest!: set_update_subset_insert [THEN subsetD])
  moreover have "event_ids (records c') = event_ids (records c)" "nextEventID c' = nextEventID c"
    using ok line by (auto simp: thread_ok_def attrs_ok_def)
  ultimately show ?thesis using assms(2) one_thread by (simp add: quiet_sys_def)
qed

lemma quiet_give:
  "quiet_sys (ag_sys s) \<Longrightarrow> n_recs os = 0 \<Longrightarrow> quiet_sys (ag_sys (give i os s))"
  by (auto simp: quiet_sys_def list_all_iff dest!: set_update_subset_insert [THEN subsetD])

lemma early_call:
  assumes "main_inv K gvr_string w s" "\<not> ag_synced s" "ag_main s = MCall f # ms" "call_logs f os"
  shows "n_recs os = 0"
proof -
  have "call_logs f (announce_outs K found missing gvrs) \<Longrightarrow> n_recs os = 0" for found missing gvrs
    using call_logs_unique [OF assms(4)] by (auto simp: announce_outs_def)
  then have announced: "f = announce K found missing gvrs \<Longrightarrow> n_recs os = 0" for found missing gvrs
    using announce_logs by blast
  have plain: "f = Log_at l msg [] \<Longrightarrow> l \<noteq> LDebug \<Longrightarrow> n_recs os = 0" for l msg
    using call_logs_unique [OF assms(4), of "[OLog l msg []]"] log_logs [of l msg "[]"] by simp
  from assms(1-3) show ?thesis
    by (auto simp: main_inv_def main_program_def suffix_Cons announced plain split: if_splits)
qed

lemma step_quiet:
  assumes "agent_step K w s s'" "ids_inv k (ag_sys s)" "main_inv K gvr_string w s"
    and "\<not> ag_synced s \<longrightarrow> quiet_sys (ag_sys s)" and "\<not> ag_synced s'"
  shows "quiet_sys (ag_sys s')"
  using assms(1)
proof cases
  case (run y)
  with assms quiet_internal show ?thesis by auto
next
  case (main_call f ms os)
  with assms quiet_give early_call show ?thesis by auto
next
  case (notify i rsl R src n os)
  with assms dispatch_closed [of K "gwGVRs K w" "trGVRs K w" rsl R src n os] quiet_give show ?thesis by auto
next
  case (ror_swap ident)
  let ?u = "[updated_out (bw_getenv w) (ag_ror s) ident]"
  have "quiet_sys (ag_sys (give 1 ?u s))"
    using assms(4, 5) ror_swap by (intro quiet_give updated_lines(2)) simp
  then show ?thesis using ror_swap by (simp add: quiet_sys_def SetClusterAttrs_def)
next
  case (reconcile i rsl rs now_ms rnd os)
  have "\<not> ag_started s"
    using assms(3, 5) reconcile(1) by (auto simp: main_inv_def main_program_def suffix_Cons split: if_splits)
  with reconcile show ?thesis by simp
qed (use assms(4, 5) quiet_give heartbeat_lines operational_line_ok in \<open>auto; blast\<close>)+

subsection \<open>The lines of main in the log\<close>

text \<open>An entry of the log that a line was written as, with an id and identity attributes of its own.\<close>

fun written_as :: "out \<Rightarrow> entry \<Rightarrow> bool" where
  "written_as (ORec event kind rest) e \<longleftrightarrow> elevel e = LInfo \<and> emsg e = event \<and>
     (case eid e of None \<Rightarrow> False
      | Some n \<Rightarrow> prefix ((''kind'', AStr kind) # (''event_id'', AU64 n) # rest) (eattrs e))"
| "written_as (OLog l msg attrs) e \<longleftrightarrow> elevel e = l \<and> emsg e = msg \<and> prefix attrs (eattrs e)"

definition written_in :: "out list \<Rightarrow> entry list \<Rightarrow> bool" where
  "written_in os es \<longleftrightarrow> (\<exists>ws. subseq ws es \<and> list_all2 written_as os ws)"

lemma written_in_more: "written_in os es \<Longrightarrow> written_in os (es @ new)"
  unfolding written_in_def by (metis list_emb_prefix)

lemma written_in_snoc: "written_in os es \<Longrightarrow> written_as x e \<Longrightarrow> written_in (os @ [x]) (es @ [e])"
  unfolding written_in_def
  by (metis list_all2_Cons list_all2_Nil list_all2_appendI list_emb_append_mono subseq_order.order_refl)

lemma written_in_part: "written_in (xs @ os @ ys) es \<Longrightarrow> written_in os es"
proof -
  assume "written_in (xs @ os @ ys) es"
  then obtain us vs zs where "subseq (us @ vs @ zs) es" "list_all2 written_as os vs"
    unfolding written_in_def by (auto simp: list_all2_append1)
  moreover have "subseq vs (us @ vs @ zs)"
    by (intro list_emb_append2 list_emb_prefix subseq_order.order_refl)
  ultimately show ?thesis unfolding written_in_def by (meson subseq_order.trans)
qed

lemma thread_step_prefix: "thread_step t c t' c' \<Longrightarrow> prefix (records c) (records c')"
  by (induction rule: thread_step.induct) (auto simp: NextEventID_def Let_def)

lemma thread_step_writes:
  assumes "thread_step t c t' c'" "list_all line_ok (gr_todo t)"
  shows "(gr_todo t' = gr_todo t \<and> records c' = records c) \<or>
    (\<exists>x e. gr_todo t = x # gr_todo t' \<and> records c' = records c @ [e] \<and> written_as x e)"
  using assms by cases (auto simp: NextEventID_def Let_def)

definition lines_inv :: "out list list \<Rightarrow> agent \<Rightarrow> bool" where
  "lines_inv L s \<longleftrightarrow> sy_threads (ag_sys s) \<noteq> [] \<and> (\<exists>written rest.
     concat L = written @ gr_todo (sy_threads (ag_sys s) ! 0) @ concat rest \<and>
     list_all2 call_logs (calls (ag_main s)) rest \<and> written_in written (records (ag_log s)))"

lemma lines_internal:
  assumes "internal (ag_sys s) y" "lines_inv L s" "list_all line_ok (concat L)"
  shows "lines_inv L (s\<lparr>ag_sys := y\<rparr>)"
  using assms(1)
proof cases
  case (one_thread i ts c t' c')
  from assms(2) obtain written rest where inv: "ts \<noteq> []"
    "concat L = written @ gr_todo (ts ! 0) @ concat rest" "list_all2 call_logs (calls (ag_main s)) rest"
    "written_in written (records c)" by (auto simp: lines_inv_def one_thread)
  from thread_step_prefix [OF one_thread(4)] obtain new where grow: "records c' = records c @ new"
    by (auto simp: prefix_def)
  show ?thesis
  proof (cases "i = 0")
    case False
    then have "ts[i := t'] ! 0 = ts ! 0" by simp
    with inv grow show ?thesis
      by (auto simp: lines_inv_def one_thread intro!: exI [of _ written] exI [of _ rest] written_in_more)
  next
    case True
    have ok: "list_all line_ok (gr_todo (ts ! 0))" using assms(3) inv(2) by simp
    from thread_step_writes [OF one_thread(4)] ok True consider
        "gr_todo t' = gr_todo (ts ! 0)" "records c' = records c"
      | x e where "gr_todo (ts ! 0) = x # gr_todo t'" "records c' = records c @ [e]" "written_as x e" by auto
    then show ?thesis
    proof cases
      case 1
      with inv True show ?thesis
        by (auto simp: lines_inv_def one_thread intro!: exI [of _ written] exI [of _ rest])
    next
      case 2
      then have "written_in (written @ [x]) (records c')"
        using written_in_snoc [OF inv(4)] by simp
      with inv 2 True show ?thesis
        by (auto simp: lines_inv_def one_thread intro!: exI [of _ "written @ [x]"] exI [of _ rest])
    qed
  qed
qed

lemma lines_give:
  "lines_inv L s \<Longrightarrow> idle s i \<Longrightarrow> 0 < i \<Longrightarrow> lines_inv L (give i os s)"
  unfolding lines_inv_def by simp

lemma lines_cong:
  "lines_inv L s \<Longrightarrow> sy_threads (ag_sys s') = sy_threads (ag_sys s) \<Longrightarrow> calls (ag_main s') = calls (ag_main s) \<Longrightarrow>
   records (ag_log s') = records (ag_log s) \<Longrightarrow> lines_inv L s'"
  unfolding lines_inv_def by simp

lemma step_lines:
  assumes "agent_step K w s s'" "lines_inv L s" "list_all line_ok (concat L)"
  shows "lines_inv L s'"
  using assms(1)
proof cases
  case (run y)
  with lines_internal [OF run(3) assms(2, 3)] show ?thesis by simp
next
  case (main_call f ms os)
  from assms(2) main_call obtain written rest where inv: "sy_threads (ag_sys s) \<noteq> []"
    "concat L = written @ concat rest" "list_all2 call_logs (f # calls ms) rest"
    "written_in written (records (ag_log s))" by (auto simp: lines_inv_def idle_def)
  then obtain os' rest' where rest: "rest = os' # rest'" "call_logs f os'" "list_all2 call_logs (calls ms) rest'"
    by (auto simp: list_all2_Cons1)
  with call_logs_unique main_call have "os' = os" by blast
  with inv rest show ?thesis
    using main_call by (auto simp: lines_inv_def intro!: exI [of _ written] exI [of _ rest'])
next
  case (ror_swap ident)
  have "lines_inv L (give 1 [updated_out (bw_getenv w) (ag_ror s) ident] s)"
    using assms(2) ror_swap by (intro lines_give) simp_all
  from lines_cong [OF this] ror_swap show ?thesis by (simp add: SetClusterAttrs_def)
next
  case (notify i rsl R src n os)
  with lines_give [OF assms(2), of i os] show ?thesis by simp
next
  case (ror_ask rw ident os)
  with lines_give [OF assms(2), of 1 os] show ?thesis by (auto intro: lines_cong)
next
  case (heartbeat t hb os delay)
  with lines_give [OF assms(2), of 2 os] show ?thesis by (auto intro: lines_cong)
next
  case (reconcile i rsl rs now_ms rnd os)
  with lines_give [OF assms(2), of i os] show ?thesis by simp
next
  case (diagnostics i os)
  with lines_give [OF assms(2), of i os] show ?thesis by simp
qed (use assms(2) in \<open>auto intro: lines_cong\<close>)

subsection \<open>The identity on the lines\<close>

definition identity_of :: "boot_world \<Rightarrow> rorIdentity \<Rightarrow> attr list" where
  "identity_of w ident = identity_attrs (bw_build w) (bw_getenv w) (main_clusterID w) ident"

definition identity_inv :: "boot_world \<Rightarrow> entry list \<Rightarrow> rorIdentity \<Rightarrow> agent \<Rightarrow> bool" where
  "identity_inv w before ror s \<longleftrightarrow> clusterAttrs (ag_log s) = identity_of w (ag_ror s) \<and> ror_wf (ag_ror s) \<and>
     (case ag_found s of None \<Rightarrow> True | Some ident \<Rightarrow> ror_wf ident) \<and>
     (if ror = no_identity then True else ag_ror s \<noteq> no_identity) \<and>
     (\<exists>new. records (ag_log s) = before @ new \<and>
        list_all (\<lambda>e. \<exists>ident. ror_wf ident \<and> suffix (identity_of w ident) (eattrs e)) new)"

lemma thread_step_entry:
  "thread_step t c t' c' \<Longrightarrow> clusterAttrs c' = clusterAttrs c \<and>
     (\<exists>new. records c' = records c @ new \<and> list_all (\<lambda>e. suffix (clusterAttrs c) (eattrs e)) new)"
proof (induction rule: thread_step.induct)
  case (write_rec event kind rest os n c)
  show ?case by simp (metis append_Cons suffix_def)
qed (auto simp: NextEventID_def Let_def suffix_def)

lemma identity_internal:
  assumes "internal (ag_sys s) y" "identity_inv w before ror s"
  shows "identity_inv w before ror (s\<lparr>ag_sys := y\<rparr>)"
  using assms(1)
proof cases
  case (one_thread i ts c t' c')
  from thread_step_entry [OF one_thread(4)] obtain new where
    "clusterAttrs c' = clusterAttrs c" "records c' = records c @ new"
    "list_all (\<lambda>e. suffix (clusterAttrs c) (eattrs e)) new" by blast
  with assms(2) show ?thesis
    by (auto simp: identity_inv_def one_thread list_all_iff) blast
qed

lemma step_identity:
  assumes "agent_step K w s s'" "identity_inv w before ror s"
  shows "identity_inv w before ror s'"
  using assms(1)
proof cases
  case (run y)
  with identity_internal [OF run(3) assms(2)] show ?thesis by simp
next
  case (ror_ask rw ident os)
  have "ror_wf ident"
    using lookup_wf [of "bw_getenv w" "rorEndpoint (bw_getenv w)" rw init_collector] ror_ask(5) by simp
  with assms(2) ror_ask(1) show ?thesis by (simp add: identity_inv_def)
next
  case (ror_swap ident)
  with assms(2) show ?thesis by (simp add: identity_inv_def identity_of_def) (simp add: SetClusterAttrs_def)
qed (use assms(2) in \<open>simp_all add: identity_inv_def\<close>)

subsection \<open>What the setup leaves behind\<close>

lemma env_float_quiet: "attrs_ok c \<Longrightarrow> quiet c (snd (envFloat32 parse render getenv name def c))"
  unfolding envFloat32_def Let_def
  by (auto simp del: Log_at_eq split: option.split intro!: quiet_Log_at)

lemma env_float_attrs: "clusterAttrs (snd (envFloat32 parse render getenv name def c)) = clusterAttrs c"
  unfolding envFloat32_def Let_def by (auto split: option.split)

lemma env_int_quiet: "attrs_ok c \<Longrightarrow> quiet c (snd (envInt getenv name def c))"
  unfolding envInt_def Let_def
  by (auto simp del: Log_at_eq split: option.split intro!: quiet_Log_at)

lemma env_int_attrs: "clusterAttrs (snd (envInt getenv name def c)) = clusterAttrs c"
  unfolding envInt_def Let_def by (auto split: option.split)

lemma says_quiet: "says f \<Longrightarrow> attrs_ok c \<Longrightarrow> quiet c (snd (f c)) \<and> clusterAttrs (snd (f c)) = clusterAttrs c"
proof -
  assume "says f" and c: "attrs_ok c"
  then obtain x os where f: "list_all operational os" "f = (\<lambda>c. (x, log_outs os c))" by (auto simp: says_def)
  with operational_line_ok have os: "list_all line_ok os" "n_recs os = 0" by auto
  have "event_ids (stamp (nextEventID c) (clusterAttrs c) os) = []"
    using event_ids_stamp [OF line_ok_wf [OF os(1)]] c os(2) by (simp add: attrs_ok_def id_range_def)
  with os(2) show ?thesis by (simp add: f(2) log_outs_eq quiet_def)
qed

definition silent :: "collector \<Rightarrow> bool" where
  "silent c \<longleftrightarrow> attrs_ok c \<and> nextEventID c = 0 \<and> event_ids (records c) = []"

lemma silent_init: "silent init_collector"
  by (simp add: silent_def attrs_ok_def) (simp add: init_collector_def)

lemma silent_quiet: "silent c \<Longrightarrow> quiet c c' \<Longrightarrow> clusterAttrs c' = clusterAttrs c \<Longrightarrow> silent c'"
  using quiet_event_ids [of c c'] by (auto simp: silent_def attrs_ok_def quiet_def)

lemma silent_line: "silent c \<Longrightarrow> silent (Log_at LError msg [(''err'', AStr err)] c)"
  by (rule silent_quiet [OF _ quiet_Log_at]) (simp_all add: silent_def)

lemma silent_set: "silent c \<Longrightarrow> silent (SetClusterAttrs (identity_of w ident) c)"
  by (simp add: silent_def attrs_ok_def identity_of_def identity_attrs_def attr_set_no_event_id)
    (simp add: SetClusterAttrs_def)

definition boot_fails :: "boot_world \<Rightarrow> bool" where
  "boot_fails w \<longleftrightarrow> bw_config_err w \<noteq> None \<or> bw_clientset_err w \<noteq> None \<or> bw_dynamic_err w \<noteq> None \<or>
     bw_discovery_err w \<noteq> None"

lemma boot_identity_says: "says (boot_identity w)"
  unfolding boot_identity_def Let_def by (intro says_intros says_lookup)

lemma boot_identity_wf: "ror_wf (fst (boot_identity w c))"
  using lookup_wf by (auto simp: boot_identity_def ror_wf_def Let_def)

lemma boot_setup_leaves:
  "case boot_setup w init_collector of
     (Inl code, c) \<Rightarrow> boot_fails w \<and> code = 1 \<and> silent c \<and> list_ex (\<lambda>e. elevel e = LError) (records c)
   | (Inr ror, c) \<Rightarrow> \<not> boot_fails w \<and> silent c \<and> ror_wf ror \<and> clusterAttrs c = identity_of w ror"
proof -
  obtain qps c1 where env1: "envFloat32 (bw_parse_float w) (bw_render_float w) (bw_getenv w)
      ''KUBE_CLIENT_QPS'' (Finite 5) init_collector = (qps, c1)" by (rule prod.exhaust)
  obtain burst c2 where env2: "envInt (bw_getenv w) ''KUBE_CLIENT_BURST'' 10 c1 = (burst, c2)" by (rule prod.exhaust)
  obtain ror c3 where ror: "boot_identity w c2 = (ror, c3)" by (rule prod.exhaust)
  have ok: "silent c \<Longrightarrow> attrs_ok c" for c by (simp add: silent_def)
  have c1: "silent c1"
    using silent_quiet [OF silent_init env_float_quiet env_float_attrs] ok [OF silent_init] env1 by (metis snd_conv)
  then have c2: "silent c2"
    using silent_quiet [OF c1 env_int_quiet env_int_attrs] ok env2 by (metis snd_conv)
  then have c3: "silent c3"
    using silent_quiet [OF c2] says_quiet [OF boot_identity_says ok [OF c2], of w] ror by (metis snd_conv)
  have wf: "ror_wf ror" using boot_identity_wf [of w c2] by (simp add: ror)
  show ?thesis
    unfolding boot_setup_def Let_def env1 env2 ror prod.case identity_attrs_def [symmetric] identity_of_def [symmetric]
    using silent_init c2 silent_set [OF c3] wf
    by (auto simp: boot_fails_def silent_line simp del: Log_at_eq split: option.split) simp_all
qed

subsection \<open>Every run\<close>

definition streaming :: "agent \<Rightarrow> bool" where
  "streaming s \<longleftrightarrow> idle s 0 \<and> (case ag_main s of MWait # ms \<Rightarrow> True | _ \<Rightarrow> False)"

definition initial_outs :: "kapi \<Rightarrow> (gvr \<Rightarrow> string) \<Rightarrow> boot_world \<Rightarrow> out list" where
  "initial_outs K gvr_string w = snapshot_outs K (bw_replica_sets w) (main_resources K gvr_string w) ''init''
     (newSnapshotID (bw_now_ms w) (bw_rnd w))"

definition run_inv :: "kapi \<Rightarrow> (gvr \<Rightarrow> string) \<Rightarrow> boot_world \<Rightarrow> agent \<Rightarrow> bool" where
  "run_inv K gvr_string w s \<longleftrightarrow> (\<exists>k. ids_inv k (ag_sys s)) \<and> main_inv K gvr_string w s \<and>
     (\<not> ag_synced s \<longrightarrow> quiet_sys (ag_sys s)) \<and> lines_inv (main_lines K gvr_string w) s"

lemma main_lines_ok: "list_all line_ok (concat (main_lines K gvr_string w))"
proof -
  have "list_all2 call_logs fs L \<Longrightarrow> list_all line_ok (concat L)" for fs L
    by (induction rule: list_all2_induct) (simp_all add: call_lines)
  then show ?thesis using main_lines_logged by blast
qed

lemma step_run:
  assumes "agent_step K w s s'" "run_inv K gvr_string w s"
  shows "run_inv K gvr_string w s'"
  using assms step_ids step_main step_quiet step_lines [OF _ _ main_lines_ok] unfolding run_inv_def by metis

lemma start_run:
  assumes "silent c0"
  shows "run_inv K gvr_string w (start_agent K gvr_string w n ror c0)"
proof -
  have none: "held (replicate m \<lparr>gr_todo = [], gr_id = None\<rparr>) = []" for m
    unfolding held_def by (rule map_filter_all_None) auto
  have "ids_inv 0 (start_system (n + 3) c0)"
    using assms none by (auto simp: ids_inv_def start_system_def silent_def id_range_def thread_ok_def list_all_iff)
  moreover have "quiet_sys (start_system (n + 3) c0)"
    using assms by (auto simp: quiet_sys_def start_system_def silent_def list_all_iff)
  moreover have "written_in [] es" for es by (simp add: written_in_def)
  ultimately show ?thesis
    using main_lines_logged [of K gvr_string w]
    by (auto simp: run_inv_def start_agent_def main_inv_def main_program_def lines_inv_def start_system_def
        intro!: exI [of _ "[]"] exI [of _ "main_lines K gvr_string w"] simp del: replicate.simps(2))
qed

lemma reach_run:
  assumes "agent_reach K w (start_agent K gvr_string w n ror c0) s" "silent c0"
  shows "run_inv K gvr_string w s"
  using assms(1) by induction (auto intro: start_run [OF assms(2)] step_run)

lemma run_written:
  assumes "run_inv K gvr_string w s" "bw_syncs w" "idle s 0" "suffix (ag_main s) [MWait, MCall (Log_at LInfo ''shutdown'' []), MExit 0]"
  shows "written_in (initial_outs K gvr_string w @ [OLog LInfo ''streaming events'' []]) (records (ag_log s))"
proof -
  let ?last = "[OLog LInfo ''shutdown'' []]"
  from assms(1,3) obtain written rest where w: "concat (main_lines K gvr_string w) = written @ concat rest"
    "list_all2 call_logs (calls (ag_main s)) rest" "written_in written (records (ag_log s))"
    by (auto simp: run_inv_def lines_inv_def idle_def)
  have last: "call_logs (Log_at LInfo ''shutdown'' []) os \<Longrightarrow> os = ?last" for os
    using call_logs_unique log_logs [of LInfo "''shutdown''" "[]"] by simp
  from assms(4) w(2) have "rest = [?last] \<or> rest = []"
    by (auto simp: suffix_Cons list_all2_Cons1 last)
  moreover obtain pre where "concat (main_lines K gvr_string w) =
      pre @ (initial_outs K gvr_string w @ [OLog LInfo ''streaming events'' []]) @ ?last"
  proof
    show "concat (main_lines K gvr_string w) = (announce_outs K ''gateway API detected''
        ''gateway API CRDs not installed; skipping'' (gwGVRs K w) @ announce_outs K ''traefik CRDs detected''
        ''traefik CRDs not installed; skipping'' (trGVRs K w) @ [OLog LInfo ''waiting for cache sync'' []]) @
      (initial_outs K gvr_string w @ [OLog LInfo ''streaming events'' []]) @ ?last"
      using assms(2) by (simp add: main_lines_def initial_outs_def)
  qed
  ultimately have "written = pre @ (initial_outs K gvr_string w @ [OLog LInfo ''streaming events'' []]) @ [] \<or>
      written = pre @ (initial_outs K gvr_string w @ [OLog LInfo ''streaming events'' []]) @ ?last"
    using w(1) by (elim disjE) (simp_all add: append_assoc [symmetric] del: append_assoc)
  with w(3) written_in_part show ?thesis by metis
qed

text \<open>C5: from the first goroutine on, however main, the handlers and the loops interleave: no record is
  written and no event id taken before the gate is open, which it never is without synced caches; at
  every moment what main has written of its lines is in the log in their order, the rest being what
  it holds and what its remaining calls log; once main waits for its signal, the whole initial
  snapshot and the line after it are in the log in order, among the lines of the others; and the ids
  taken are the numbers from 1 on, each once.\<close>

theorem startup_stream:
  assumes "boot_setup w init_collector = (Inr ror, c0)"
    and "agent_reach K w (start_agent K gvr_string w n ror c0) s"
  shows "(if ag_synced s then bw_syncs w
      else nextEventID (ag_log s) = 0 \<and> event_ids (records (ag_log s)) = []) \<and>
    (\<exists>written rest. concat (main_lines K gvr_string w) =
        written @ gr_todo (sy_threads (ag_sys s) ! 0) @ concat rest \<and>
       list_all2 call_logs (calls (ag_main s)) rest \<and> written_in written (records (ag_log s))) \<and>
    (streaming s \<longrightarrow> ag_synced s \<and>
       written_in (initial_outs K gvr_string w @ [OLog LInfo ''streaming events'' []]) (records (ag_log s))) \<and>
    EmitFullSnapshot K (bw_replica_sets w) (main_resources K gvr_string w) ''init'' (bw_now_ms w) (bw_rnd w) =
      log_outs (initial_outs K gvr_string w) \<and>
    (\<exists>k. mset (event_ids (records (ag_log s))) + mset (held (sy_threads (ag_sys s))) = mset (id_range 0 k))"
proof -
  from boot_setup_leaves [of w] have "silent c0" by (simp add: assms(1))
  from reach_run [OF assms(2) this] have inv: "run_inv K gvr_string w s" .
  then have gate: "if ag_synced s then bw_syncs w
      else nextEventID (ag_log s) = 0 \<and> event_ids (records (ag_log s)) = []"
    by (auto simp: run_inv_def main_inv_def quiet_sys_def)
  have stream: "ag_synced s \<and>
      written_in (initial_outs K gvr_string w @ [OLog LInfo ''streaming events'' []]) (records (ag_log s))"
    if "streaming s"
  proof -
    from that obtain ms where wait: "idle s 0" "ag_main s = MWait # ms"
      by (auto simp: streaming_def split: list.splits main_step.splits)
    with inv have "bw_syncs w" "ag_synced s" "suffix (ag_main s) [MWait, MCall (Log_at LInfo ''shutdown'' []), MExit 0]"
      by (auto simp: run_inv_def main_inv_def main_program_def suffix_Cons split: if_splits)
    with run_written [OF inv _ wait(1)] show ?thesis by blast
  qed
  show ?thesis
    using inv gate stream EmitFullSnapshot_logs
    by (auto simp: run_inv_def lines_inv_def ids_inv_def initial_outs_def call_logs_def)
qed

text \<open>Main alone: a run in which no other goroutine does anything gets through startup.\<close>

lemma run_internal:
  assumes "internal\<^sup>*\<^sup>* (ag_sys s) y" "ag_exit s = None" "agent_reach K w s0 s"
  shows "agent_reach K w s0 (s\<lparr>ag_sys := y\<rparr>)"
  using assms(1)
proof induction
  case base
  with assms(3) show ?case by simp
next
  case (step y z)
  from run [of "s\<lparr>ag_sys := y\<rparr>" z K w] step assms(2) have "agent_step K w (s\<lparr>ag_sys := y\<rparr>) (s\<lparr>ag_sys := z\<rparr>)" by simp
  with step.IH show ?case by (rule agent_next)
qed

lemma call_alone:
  assumes "agent_reach K w s0 s" "idle s 0" "ag_main s = MCall f # ms" "call_logs f os"
  shows "\<exists>s'. agent_reach K w s0 s' \<and> idle s' 0 \<and> ag_main s' = ms \<and> ag_log s' = f (ag_log s)"
proof -
  let ?s = "give 0 os s\<lparr>ag_main := ms\<rparr>"
  let ?ts = "sy_threads (ag_sys ?s)"
  have "agent_reach K w s0 ?s" by (rule agent_next [OF assms(1) main_call [OF assms(2-4)]])
  moreover have "internal\<^sup>*\<^sup>* (ag_sys ?s)
      \<lparr>sy_threads = ?ts[0 := \<lparr>gr_todo = [], gr_id = None\<rparr>], sy_col = log_outs os (ag_log s)\<rparr>"
    using uninterrupted [of 0 ?ts os "[]" "ag_log s"] assms(2) by (cases "ag_sys s") (auto simp: idle_def give_def)
  ultimately have "agent_reach K w s0 (?s\<lparr>ag_sys :=
      \<lparr>sy_threads = ?ts[0 := \<lparr>gr_todo = [], gr_id = None\<rparr>], sy_col = log_outs os (ag_log s)\<rparr>\<rparr>)"
    using assms(2) by (intro run_internal) (simp_all add: idle_def)
  moreover from assms(2,4) have "idle (?s\<lparr>ag_sys :=
      \<lparr>sy_threads = ?ts[0 := \<lparr>gr_todo = [], gr_id = None\<rparr>], sy_col = log_outs os (ag_log s)\<rparr>\<rparr>) 0"
    by (simp add: idle_def)
  ultimately show ?thesis using assms(4) by (fastforce simp: call_logs_def)
qed

lemma open_alone:
  "agent_reach K w s0 s \<Longrightarrow> idle s 0 \<Longrightarrow> ag_main s = MOpen # ms \<Longrightarrow>
   \<exists>s'. agent_reach K w s0 s' \<and> idle s' 0 \<and> ag_main s' = ms \<and> ag_log s' = ag_log s"
  by (rule exI [of _ "s\<lparr>ag_main := ms, ag_synced := True\<rparr>"]) (simp add: agent_next [OF _ main_open], simp add: idle_def)

lemma start_alone:
  "agent_reach K w s0 s \<Longrightarrow> idle s 0 \<Longrightarrow> ag_main s = MStart # ms \<Longrightarrow>
   \<exists>s'. agent_reach K w s0 s' \<and> idle s' 0 \<and> ag_main s' = ms \<and> ag_log s' = ag_log s"
  by (rule exI [of _ "s\<lparr>ag_main := ms, ag_started := True\<rparr>"]) (simp add: agent_next [OF _ main_start], simp add: idle_def)

lemma main_alone:
  assumes "bw_syncs w"
  shows "\<exists>s. agent_reach K w (start_agent K gvr_string w n ror c0) s \<and> streaming s"
proof -
  let ?s0 = "start_agent K gvr_string w n ror c0"
  let ?gets = "\<lambda>ms. \<exists>s. agent_reach K w ?s0 s \<and> idle s 0 \<and> ag_main s = ms"
  have call: "?gets (MCall f # ms) \<Longrightarrow> call_logs f os \<Longrightarrow> ?gets ms" for f ms os
    using call_alone by blast
  have "?gets (main_program K gvr_string w)"
    by (rule exI [of _ ?s0]) (simp add: agent_start start_agent_def idle_def start_system_def)
  then have "?gets [MOpen,
       MCall (EmitFullSnapshot K (bw_replica_sets w) (main_resources K gvr_string w) ''init'' (bw_now_ms w) (bw_rnd w)),
       MCall (Log_at LInfo ''streaming events'' []), MStart, MWait, MCall (Log_at LInfo ''shutdown'' []), MExit 0]"
    using assms unfolding main_program_def
    by (simp only: append_Cons append_Nil not_True_eq_False if_False)
      (drule call [OF _ announce_logs] | drule call [OF _ log_logs], simp)+
  then have "?gets [MCall (EmitFullSnapshot K (bw_replica_sets w) (main_resources K gvr_string w) ''init'' (bw_now_ms w) (bw_rnd w)),
       MCall (Log_at LInfo ''streaming events'' []), MStart, MWait, MCall (Log_at LInfo ''shutdown'' []), MExit 0]"
    using open_alone by blast
  then have "?gets [MStart, MWait, MCall (Log_at LInfo ''shutdown'' []), MExit 0]"
    by - (drule call [OF _ EmitFullSnapshot_logs], drule call [OF _ log_logs], simp)
  then have "?gets [MWait, MCall (Log_at LInfo ''shutdown'' []), MExit 0]" using start_alone by blast
  then show ?thesis by (auto simp: streaming_def)
qed

definition world_example :: boot_world where
  "world_example = \<lparr>bw_getenv = demo_env, bw_parse_float = (\<lambda>_. None), bw_render_float = (\<lambda>_. ANull),
     bw_parse_duration = (\<lambda>_. None), bw_build = (''1.0'', ''abc''), bw_config_err = None,
     bw_clientset_err = None, bw_dynamic_err = None, bw_discovery_err = None, bw_ror = demo_world 200,
     bw_kube_system = Some ''kube-uid'', bw_disc = (\<lambda>_. DNil), bw_version_order = [], bw_syncs = True,
     bw_typed = resources_example, bw_custom = (\<lambda>_. []), bw_replica_sets = None,
     bw_now_ms = 1700000000000, bw_rnd = []\<rparr>"

lemma world_boots: "fst (boot_setup world_example init_collector) = Inr demo_identity"
proof -
  have env: "envFloat32 (\<lambda>_. None) (\<lambda>_. ANull) demo_env ''KUBE_CLIENT_QPS'' (Finite 5) c = (Finite 5, c)"
    "envInt demo_env ''KUBE_CLIENT_BURST'' 10 c = (10, c)" for c
    by (simp_all add: envFloat32_def envInt_def demo_env_def)
  have "boot_identity world_example c = (demo_identity, c)" for c
    by (simp add: boot_identity_def world_example_def ror_lookup_def demo_endpoint demo_key demo_fetch)
  then show ?thesis
    unfolding boot_setup_def Let_def by (simp add: env world_example_def)
qed

theorem startup_stream_witness:
  "\<exists>s. streaming s \<and> ag_synced s \<and>
     written_in (initial_outs ref_kapi g_Resource world_example @ [OLog LInfo ''streaming events'' []])
       (records (ag_log s))"
proof -
  obtain c0 where boot: "boot_setup world_example init_collector = (Inr demo_identity, c0)"
    using world_boots by (metis prod.collapse)
  have "bw_syncs world_example" by (simp add: world_example_def)
  from main_alone [OF this] obtain s where
    "agent_reach ref_kapi world_example (start_agent ref_kapi g_Resource world_example 1 demo_identity c0) s"
    "streaming s" by blast
  with startup_stream [OF boot this(1)] show ?thesis by blast
qed

subsection \<open>How the process ends\<close>

text \<open>The exit code and the log of the process in a possible state; the code is \<^const>\<open>None\<close> while it runs.\<close>

definition process :: "kapi \<Rightarrow> (gvr \<Rightarrow> string) \<Rightarrow> boot_world \<Rightarrow> nat \<Rightarrow> int option \<Rightarrow> collector \<Rightarrow> bool" where
  "process K gvr_string w n exit_code c \<longleftrightarrow>
     (case boot_setup w init_collector of
        (Inl code, c') \<Rightarrow> exit_code = Some code \<and> c = c'
      | (Inr ror, c0) \<Rightarrow>
          (\<exists>s. agent_reach K w (start_agent K gvr_string w n ror c0) s \<and> exit_code = ag_exit s \<and> c = ag_log s))"

lemma exit_written:
  assumes "agent_reach K w (start_agent K gvr_string w n ror c0) s" "silent c0" "ag_exit s = Some code"
  shows "written_in (concat (main_lines K gvr_string w)) (records (ag_log s))"
  using assms(1,3)
proof (induction arbitrary: code)
  case agent_start
  then show ?case by (simp add: start_agent_def)
next
  case (agent_next s s')
  from agent_next(2) show ?case
  proof cases
    case (main_exit code' ms)
    have inv: "run_inv K gvr_string w s" by (rule reach_run [OF agent_next(1) assms(2)])
    with main_exit have "calls (ag_main s) = []"
      by (auto simp: run_inv_def main_inv_def main_program_def suffix_Cons split: if_splits)
    with inv main_exit show ?thesis by (auto simp: run_inv_def lines_inv_def idle_def)
  qed (use agent_next.prems in \<open>simp_all add: idle_def\<close>)
qed

text \<open>C25: when the process has ended, either a client could not be built or the caches did not sync, and then
  it ended with code 1, no record in the log and an error line in it; or it ended with code 0 after a
  signal, with the whole initial snapshot and main's lines after it in the log, in order.\<close>

theorem process_exits:
  assumes "process K gvr_string w n (Some code) c"
  shows "(if boot_fails w \<or> \<not> bw_syncs w
     then code = 1 \<and> event_ids (records c) = [] \<and> list_ex (\<lambda>e. elevel e = LError) (records c)
     else code = 0 \<and> written_in (initial_outs K gvr_string w @
       [OLog LInfo ''streaming events'' [], OLog LInfo ''shutdown'' []]) (records c))"
proof (cases "boot_setup w init_collector")
  case (Pair r c0)
  show ?thesis
  proof (cases r)
    case (Inl code')
    with Pair assms boot_setup_leaves [of w] have "boot_fails w" "code = 1" "silent c" "list_ex (\<lambda>e. elevel e = LError) (records c)"
      by (auto simp: process_def)
    then show ?thesis by (simp add: silent_def)
  next
    case (Inr ror)
    with Pair boot_setup_leaves [of w] have ok: "\<not> boot_fails w" "silent c0" by auto
    from assms Pair Inr obtain s where s: "agent_reach K w (start_agent K gvr_string w n ror c0) s"
      "ag_exit s = Some code" "c = ag_log s" by (auto simp: process_def)
    have inv: "main_inv K gvr_string w s" "\<not> ag_synced s \<longrightarrow> quiet_sys (ag_sys s)"
      using reach_run [OF s(1) ok(2)] by (simp_all add: run_inv_def)
    have lines: "written_in (concat (main_lines K gvr_string w)) (records c)"
      using exit_written [OF s(1) ok(2) s(2)] s(3) by simp
    show ?thesis
    proof (cases "bw_syncs w")
      case True
      then have "concat (main_lines K gvr_string w) = (announce_outs K ''gateway API detected''
          ''gateway API CRDs not installed; skipping'' (gwGVRs K w) @ announce_outs K ''traefik CRDs detected''
          ''traefik CRDs not installed; skipping'' (trGVRs K w) @ [OLog LInfo ''waiting for cache sync'' []]) @
        (initial_outs K gvr_string w @ [OLog LInfo ''streaming events'' [], OLog LInfo ''shutdown'' []]) @ []"
        by (simp add: main_lines_def initial_outs_def)
      with lines written_in_part have "written_in (initial_outs K gvr_string w @
        [OLog LInfo ''streaming events'' [], OLog LInfo ''shutdown'' []]) (records c)" by metis
      with True ok inv(1) s(2) show ?thesis by (simp add: main_inv_def)
    next
      case False
      then obtain pre where "concat (main_lines K gvr_string w) = pre @ [OLog LError ''cache sync aborted'' []] @ []"
        unfolding main_lines_def by (simp add: append_assoc [symmetric] del: append_assoc)
      with lines written_in_part have "written_in [OLog LError ''cache sync aborted'' []] (records c)" by metis
      then obtain e where "e \<in> set (records c)" "elevel e = LError"
        by (auto simp: written_in_def list_all2_Cons1 subseq_singleton_left)
      with False inv s(2,3) show ?thesis by (auto simp: main_inv_def quiet_sys_def list_ex_iff)
    qed
  qed
qed

theorem process_exits_witness:
  "event_ids (records (snd (boot_setup (world_example\<lparr>bw_dynamic_err := Some ''bad host''\<rparr>) init_collector))) = []"
proof -
  let ?w = "world_example\<lparr>bw_dynamic_err := Some ''bad host''\<rparr>"
  have fails: "boot_fails ?w" by (simp add: boot_fails_def)
  with boot_setup_leaves [of ?w] have "fst (boot_setup ?w init_collector) = Inl 1"
    by (auto split: prod.splits sum.splits)
  then have "process ref_kapi g_Resource ?w 1 (Some 1) (snd (boot_setup ?w init_collector))"
    by (cases "boot_setup ?w init_collector") (simp add: process_def)
  from process_exits [OF this] fails show ?thesis by simp
qed

subsection \<open>The identity at every moment\<close>

text \<open>C24: from the end of the setup on, at every moment and however the ROR service answers, the attributes put
  on new lines are those of the identity the refresh loop holds, which is well formed and never becomes
  unknown again once it is known; and every line logged since ends with the attributes of a well-formed
  identity, whole, never with a mixture of two.\<close>

theorem identity_always:
  assumes "boot_setup w init_collector = (Inr ror, c0)"
    and "agent_reach K w (start_agent K gvr_string w n ror c0) s"
  shows "clusterAttrs (ag_log s) = identity_of w (ag_ror s) \<and> ror_wf (ag_ror s) \<and>
    (if ror = no_identity then True else ag_ror s \<noteq> no_identity) \<and>
    (\<exists>new. records (ag_log s) = records c0 @ new \<and>
       list_all (\<lambda>e. \<exists>ident. ror_wf ident \<and> suffix (identity_of w ident) (eattrs e)) new)"
proof -
  from boot_setup_leaves [of w] have "ror_wf ror" "clusterAttrs c0 = identity_of w ror" by (simp_all add: assms(1))
  then have "identity_inv w (records c0) ror (start_agent K gvr_string w n ror c0)"
    by (simp add: identity_inv_def start_agent_def start_system_def)
  with assms(2) have "identity_inv w (records c0) ror s"
    by induction (auto intro: step_identity)
  then show ?thesis by (simp add: identity_inv_def)
qed

theorem identity_always_witness:
  "\<exists>s. streaming s \<and> ag_ror s \<noteq> no_identity \<and> clusterAttrs (ag_log s) = identity_of world_example (ag_ror s)"
proof -
  obtain c0 where boot: "boot_setup world_example init_collector = (Inr demo_identity, c0)"
    using world_boots by (metis prod.collapse)
  have "bw_syncs world_example" by (simp add: world_example_def)
  from main_alone [OF this] obtain s where
    "agent_reach ref_kapi world_example (start_agent ref_kapi g_Resource world_example 1 demo_identity c0) s"
    "streaming s" by blast
  moreover have "demo_identity \<noteq> no_identity" by (simp add: demo_identity_def no_identity_def)
  ultimately show ?thesis using identity_always [OF boot] by metis
qed

text \<open>
  A round of the refresh loop is a lookup followed by a swap or none: the two steps of the loop's
  goroutine are the function of theory Ror, and every lookup can be made.
\<close>

lemma ror_round_as_steps:
  "\<exists>ident os. ror_lookup getenv endpoint rw = (\<lambda>c. (ident, log_outs os c)) \<and> list_all operational os \<and>
     ror_round build getenv endpoint cid rw (current, c) =
       (if ident \<noteq> no_identity \<and> ident \<noteq> current
        then (ident, log_outs [updated_out getenv current ident]
          (SetClusterAttrs (identity_attrs build getenv cid ident) (log_outs os c)))
        else (current, log_outs os c))"
proof -
  from says_lookup obtain ident os where "list_all operational os"
    "ror_lookup getenv endpoint rw = (\<lambda>c. (ident, log_outs os c))" unfolding says_def by blast
  then show ?thesis by (intro exI [of _ ident] exI [of _ os]) (simp add: ror_round_lookup)
qed

end
