(* ===== verification/Service_Stream.thy ===== *)
theory Service_Stream
  imports Agent
begin

section \<open>The services a consumer knows\<close>

text \<open>
  The consumer's side of the contract for services: it keeps the fields of the last record per
  namespace and name, and drops them at a DELETE.  On the other side are the informer's cache and the
  goroutines that write records about services: the service handler, which works off the queue of
  notifications, and the handlers of ingresses and routes and the snapshots, which read the cache and
  write what they have read later, without any coordination with the first.  As \<^verbatim>\<open>client-go\<close> documents, the cache is
  updated before the notification about it is handled.
\<close>

subsection \<open>The view\<close>

type_synonym service_id = "string \<times> string"

definition service_key :: "service \<Rightarrow> service_id" where
  "service_key s = (m_Namespace (s_Meta s), m_Name (s_Meta s))"

definition service_fields :: "string list" where
  "service_fields = [''uid'', ''namespace'', ''name'', ''labels'', ''service_type'', ''cluster_ips'',
     ''external_ips'', ''external_name'', ''selector'', ''ports'', ''lb_ips'', ''lb_hostnames'']"

text \<open>What one line of the log does to the view; only lines with an event id are records.\<close>

definition entry_view :: "entry \<Rightarrow> (service_id \<rightharpoonup> attr list) \<Rightarrow> (service_id \<rightharpoonup> attr list)" where
  "entry_view e V =
     (let get = map_of (eattrs e)
      in if eid e = None \<or> get ''kind'' \<noteq> Some (AStr ''Service'') then V
         else (case (get ''namespace'', get ''name'') of
             (Some (AStr ns), Some (AStr nm)) \<Rightarrow>
               if emsg e = ''DELETE'' then V((ns, nm) := None)
               else V((ns, nm) \<mapsto> List.map_filter (\<lambda>f. map_option (Pair f) (get f)) service_fields)
           | _ \<Rightarrow> V))"

definition view :: "collector \<Rightarrow> (service_id \<rightharpoonup> attr list)" where
  "view c = fold entry_view (records c) Map.empty"

lemma view_Set [simp]: "view (SetClusterAttrs as c) = view c"
  by (simp add: view_def SetClusterAttrs_def)


lemma view_emit:
  "event \<noteq> ''DELETE'' \<Longrightarrow> view (EmitService event s c) = (view c)(service_key s \<mapsto> service_attrs s)"
  by (simp add: view_def EmitService_def log_event_eq entry_view_def eid_def service_attrs_def service_key_def
      service_fields_def Let_def split: prod.split)


text \<open>A line that is not a record of a service.\<close>

fun foreign :: "out \<Rightarrow> bool" where
  "foreign (ORec event kind rest) \<longleftrightarrow> kind \<noteq> ''Service''"
| "foreign (OLog l msg attrs) \<longleftrightarrow> ''event_id'' \<notin> fst ` set attrs"


subsection \<open>The cache and its notifications\<close>

definition service_cache :: "notification \<Rightarrow> (service_id \<rightharpoonup> service) \<Rightarrow> (service_id \<rightharpoonup> service)" where
  "service_cache n S =
     (case n of
        NAdd (OService s) \<Rightarrow> S(service_key s \<mapsto> s)
      | NUpdate old (OService s) \<Rightarrow> S(service_key s \<mapsto> s)
      | NDelete (OService s) \<Rightarrow> S(service_key s := None)
      | NDelete (OTombstone key (OService s)) \<Rightarrow> S(service_key s := None)
      | _ \<Rightarrow> S)"

text \<open>The service a notification is about.\<close>

definition note_key :: "notification \<Rightarrow> service_id option" where
  "note_key n =
     (case n of
        NAdd (OService s) \<Rightarrow> Some (service_key s)
      | NUpdate old (OService s) \<Rightarrow> Some (service_key s)
      | NDelete (OService s) \<Rightarrow> Some (service_key s)
      | NDelete (OTombstone key (OService s)) \<Rightarrow> Some (service_key s)
      | _ \<Rightarrow> None)"







subsection \<open>The steps\<close>

text \<open>
  The log, the gate, the informer's cache, the notifications not handled yet, the services read from
  the cache by other handlers and snapshots and not written yet, and whether a snapshot has listed
  the services.  \<open>sv_late\<close> is bookkeeping: the services of which an outdated state was written
  last.
\<close>

record service_world =
  sv_log :: collector
  sv_open :: bool
  sv_cache :: "service_id \<rightharpoonup> service"
  sv_pending :: "notification list"
  sv_reads :: "service list"
  sv_listed :: bool
  sv_late :: "service_id set"

definition pending_on :: "service_world \<Rightarrow> service_id \<Rightarrow> bool" where
  "pending_on s k \<longleftrightarrow> (\<exists>n\<in>set (sv_pending s). note_key n = Some k)"

inductive service_step :: "kapi \<Rightarrow> gvr list \<Rightarrow> gvr list \<Rightarrow> service_world \<Rightarrow> service_world \<Rightarrow> bool"
  for K :: kapi and gws :: "gvr list" and trs :: "gvr list" where
  open_gate: "service_step K gws trs s (s\<lparr>sv_open := True\<rparr>)"
| change: "service_step K gws trs s
    (s\<lparr>sv_cache := service_cache n (sv_cache s), sv_pending := sv_pending s @ [n]\<rparr>)"
| handle: "sv_pending s = n # ns \<Longrightarrow> service_step K gws trs s
    (s\<lparr>sv_log := dispatch K gws trs rsl R (sv_open s) SService n (sv_log s), sv_pending := ns,
       sv_late := (if sv_open s then sv_late s - {k. note_key n = Some k} else sv_late s)\<rparr>)"
| look_up: "sv_open s \<Longrightarrow> sv_cache s k = Some v \<Longrightarrow>
    service_step K gws trs s (s\<lparr>sv_reads := sv_reads s @ [v]\<rparr>)"
| list_services: "sv_open s \<Longrightarrow> set vs = ran (sv_cache s) \<Longrightarrow>
    service_step K gws trs s (s\<lparr>sv_reads := sv_reads s @ vs, sv_listed := True\<rparr>)"
| emit_read: "sv_reads s = vs @ v # ws \<Longrightarrow> event = ''EXPOSURE'' \<or> event = ''INITIAL'' \<Longrightarrow>
    service_step K gws trs s
      (s\<lparr>sv_log := EmitService event v (sv_log s), sv_reads := vs @ ws,
         sv_late := (if sv_cache s (service_key v) = Some v then sv_late s - {service_key v}
           else if pending_on s (service_key v) then sv_late s else insert (service_key v) (sv_late s))\<rparr>)"
| other_line: "foreign x \<Longrightarrow> service_step K gws trs s (s\<lparr>sv_log := log_out x (sv_log s)\<rparr>)"
| swap_identity: "''event_id'' \<notin> fst ` set as \<Longrightarrow>
    service_step K gws trs s (s\<lparr>sv_log := SetClusterAttrs as (sv_log s)\<rparr>)"

definition service_start :: "collector \<Rightarrow> service_world" where
  "service_start c = \<lparr>sv_log = c, sv_open = False, sv_cache = Map.empty, sv_pending = [], sv_reads = [],
     sv_listed = False, sv_late = {}\<rparr>"

inductive service_reach :: "kapi \<Rightarrow> gvr list \<Rightarrow> gvr list \<Rightarrow> collector \<Rightarrow> service_world \<Rightarrow> bool"
  for K :: kapi and gws :: "gvr list" and trs :: "gvr list" and c :: collector where
  service_begin: "service_reach K gws trs c (service_start c)"
| service_next: "service_reach K gws trs c s \<Longrightarrow> service_step K gws trs s s' \<Longrightarrow> service_reach K gws trs c s'"

subsection \<open>What the view lags behind by\<close>





lemma dispatch_attrs [simp]: "clusterAttrs (dispatch K gws trs rsl R synced src n c) = clusterAttrs c"
  by (simp add: dispatch_logs)

lemma emit_attrs [simp]: "clusterAttrs (EmitService event s c) = clusterAttrs c"
  by (simp add: EmitService_outs)

lemma log_out_attrs [simp]: "clusterAttrs (log_out x c) = clusterAttrs c"
  using log_outs_clusterAttrs [of "[x]" c] by (simp add: log_outs_Cons)













subsection \<open>An outdated state can be written last\<close>


text \<open>The exposure record of an ingress handler can come last in the same way.\<close>

lemma late_exposure_revives:
  "view (EmitService ''EXPOSURE'' v (EmitServiceDelete v c)) (service_key v) = Some (service_attrs v)"
  by (simp add: view_emit)

subsection \<open>The lines of the other handlers\<close>

text \<open>
  What the handlers of the other informers log is covered by the steps above: each line is about
  another kind, or the EXPOSURE record of a service the lister has returned.  No custom resource
  that discovery can find is rendered under the kind of services.
\<close>

definition custom_kinds :: "gvr list \<Rightarrow> gvr list \<Rightarrow> bool" where
  "custom_kinds gws trs \<longleftrightarrow>
     list_all (\<lambda>g. kindFromResource (g_Resource g) \<noteq> ''Service'') gws \<and>
     list_all (\<lambda>g. traefikKindFromResource (g_Resource g) \<noteq> ''Service'') trs"

definition stepwise :: "refs \<Rightarrow> out \<Rightarrow> bool" where
  "stepwise R x \<longleftrightarrow> foreign x \<or> (\<exists>get ns nm v. Services R = Some get \<and> get ns nm = Some v \<and>
     x = ORec ''EXPOSURE'' ''Service'' (service_attrs v))"

lemma refresh_stepwise: "list_all (stepwise R) (refresh_outs R targets)"
proof (cases "Services R")
  case None
  then show ?thesis by (simp add: refresh_outs_def)
next
  case (Some get)
  then show ?thesis
    unfolding refresh_outs_def stepwise_def service_outs_def list_all_iff by fastforce
qed

text \<open>So is the part of a snapshot that is about services, line by line.\<close>

lemma service_snapshot_stepwise:
  "list_all (\<lambda>x. foreign x \<or> (\<exists>v\<in>set vs. x = ORec ''INITIAL'' ''Service'' (service_attrs v)))
     (service_kind_outs sid vs)"
  by (auto simp: service_kind_outs_def kind_outs_def dump_outs_def keys_out_def service_outs_def list_all_iff)

lemma typed_stepwise:
  "list_all (stepwise R) (pod_outs rsl event p old)" "list_all (stepwise R) (pod_delete_outs rsl p)"
  "list_all (stepwise R) (endpoint_slice_outs event es)" "list_all (stepwise R) (endpoint_slice_delete_outs es)"
  "list_all (stepwise R) (ingress_outs event i)" "list_all (stepwise R) (ingress_delete_outs i)"
  "list_all (stepwise R) (ingress_class_outs event ic)" "list_all (stepwise R) (ingress_class_delete_outs ic)"
  by (auto simp: stepwise_def pod_outs_def pod_delete_outs_def container_rec_def endpoint_slice_outs_def
      endpoint_slice_delete_outs_def ingress_outs_def ingress_delete_outs_def ingress_class_outs_def
      ingress_class_delete_outs_def list_all_iff)

lemma handlers_stepwise:
  assumes "custom_kinds gws trs" "src \<noteq> SService"
  shows "list_all (stepwise R) (dispatch_outs K gws trs rsl R True src n)"
proof -
  have gw: "list_all (stepwise R) (on_gateway_outs K R g event u old)"
      "list_all (stepwise R) (gateway_api_delete_outs K g u)" if "g \<in> set gws" for g event u old
    using that assms(1) refresh_stepwise
    by (auto simp: stepwise_def on_gateway_outs_def gateway_api_outs_def gateway_api_delete_outs_def
        custom_kinds_def list_all_iff [where xs = gws])
  have tr: "list_all (stepwise R) (traefik_outs K event g u @ refresh_outs R (TraefikBackends K u))"
      "list_all (stepwise R) (traefik_delete_outs K g u)" if "g \<in> set trs" for g event u
    using that assms(1) refresh_stepwise
    by (auto simp: stepwise_def traefik_outs_def traefik_delete_outs_def custom_kinds_def
        list_all_iff [where xs = trs])
  show ?thesis
    using assms(2) typed_stepwise refresh_stepwise gw tr
    by (cases src)
      (simp_all add: dispatch_outs_def pod_events.handler_outs_all endpoint_slice_events.handler_outs_all
        ingress_events.handler_outs_all ingress_class_events.handler_outs_all
        gateway_events.handler_outs_all traefik_events.handler_outs_all)
qed

lemma discovered_gateway_kinds:
  "wantResource (g_Resource g) \<Longrightarrow> kindFromResource (g_Resource g) \<noteq> ''Service''"
  by (auto simp: wantResource_iff gwAPIResources_def kindFromResource_def)

end
