(* ===== verification/Spec2Isabelle.thy ===== *)
theory Spec2Isabelle
  imports Service_Stream
begin

text \<open>
  SCAM, the cluster agent under \<^verbatim>\<open>src/cmd/scam\<close> and
  \<^verbatim>\<open>src/internal/collector\<close>: it watches a Kubernetes cluster, writes one JSON record per
  change to its log, and pushes the log to the SPAM callcenter.

  The program's parts.  The informers of client-go hand notifications to the handlers that
  \<open>main\<close> registers; a handler turns an object into records; a record takes an event id from the
  package counter and is written through the handler chain that appends the cluster's identity
  attributes.  Beside this stream run the snapshot loop (all objects between a begin and an end
  record), the push loop (captured lines in batches, with acknowledgements that may trigger a
  snapshot), the heartbeat loop and the refresh of the ROR identity.

  The theories, in the order of their imports.

  \<^item> \<open>Prelude\<close>, \<open>Go_Strings\<close>: machine integers, durations, list lemmas, and the
    functions of the packages strings and strconv the code calls; a Go string is its list of bytes.
  \<^item> \<open>Image\<close> (image.go): references taken apart; round trips.
  \<^item> \<open>Event_Log\<close> (eventid.go, logattrs.go, collector.go): the record \<open>collector\<close> is the
    state of the package: the counter, the attributes, the lines written.  What an operation logs is
    a list of \<open>out\<close>; the locales \<open>emitter\<close> and \<open>exact_emitter\<close> say that an operation
    on the state logs its list and counts it, \<open>quiet\<close> that a step logs no record.
  \<^item> \<open>KObjects\<close>: the fields of the Kubernetes types the code reads, and the value of type any.
  \<^item> \<open>Informer\<close> (informer.go, part of helpers.go): sorting, \<open>DumpSorted\<close>,
    \<open>OnEvents\<close>; the locale \<open>comparison\<close> for the orders, \<open>event_handler\<close> for the
    handlers.
  \<^item> \<open>Pod\<close>, \<open>Service\<close>, \<open>Ingress\<close>, \<open>Endpoint_Slice\<close>: the records of the
    typed objects, each interpreting the locales on its own functions.
  \<^item> \<open>Unstructured\<close>, \<open>Discovery\<close>, \<open>Gateway\<close>, \<open>Traefik\<close>: the accessors of
    custom resources over a record \<open>kapi\<close> of library functions, the choice of versions, and the
    records of gatewayapi.go and traefik.go.
  \<^item> \<open>Refs\<close> (refs.go): backends, index keys, and the exposure records an event causes; the
    locale \<open>indexer\<close> is the contract of the cache indexes.
  \<^item> \<open>Trim\<close> (transform.go): the cache transforms and that no record depends on what they drop.
  \<^item> \<open>Snapshot\<close> (snapshot.go): the snapshot, its id, its loop.
  \<^item> \<open>Push\<close>, \<open>Heartbeat\<close> (push.go): delivery as a step relation between the writers, the
    loop and SPAM; heartbeats over a list of timer firings.
  \<^item> \<open>Config\<close> (the settings of main.go), \<open>Ror\<close> (rorself.go): the environment, the two
    lookups and the refresh loop over a list of rounds.
  \<^item> \<open>Interleaving\<close>: goroutines that take ids and write lines in any order; the functions of
    the other theories are the runs in which none is interrupted.
  \<^item> \<open>Agent\<close> (main.go): the dispatch of notifications; the setup up to the first
    \<^verbatim>\<open>go\<close> statement as a function with its exits; and from there on the step relation
    \<open>agent_step\<close>, in which main (its calls, the opening of the gate as a step before the
    snapshot, the wait, the return) is one goroutine among the handlers, the ROR loop, the heartbeat
    loop and the snapshot and push loops, each writing its lines one at a time.
  \<^item> \<open>Service_Stream\<close>: what a consumer of the log knows about services, against the
    informer's cache, its queue of notifications, and the other goroutines that read services from
    the cache and write them later.

  What the lemmas show.  Per component, what every operation logs (the interpretations of the
  locales), on every branch; then: updates of pods are exact and sufficient for a consumer; the records
  of services are, once everything pending is written and no outdated state was written last, an
  exception that is shown to be real; snapshots are complete, closed and independent of the order the
  caches are listed in; discovery picks the best version; transforms are invisible; delivery is in
  order, loses lines only to a full buffer or the shutdown, and delivers all of them once SPAM answers;
  snapshots that acknowledgements trigger are spaced; waits are bounded; the attributes on every line
  are those of an identity held; ids are unique and without gaps however goroutines interleave; no
  record precedes the gate, the initial snapshot is in the log in order once main waits, and the
  process ends with code 1 and no record exactly when startup fails.

  Bounds and fuel.  No definition takes fuel.  Loops that never end in the code are functions of the
  finite list of what their timers and channels deliver, or step relations; the statements hold for
  every such list or reachable state.  Durations are integers of nanoseconds where the code only
  compares them and 64-bit words where it multiplies; event ids are 64-bit words, and uniqueness is
  stated for as long as the counter has not gone round.

  Parameters.  Code outside the repository is an argument: \<^verbatim>\<open>time.ParseDuration\<close> and
  \<^verbatim>\<open>strconv.ParseFloat\<close> (package time and float parsing as oracles of their result), the JSON
  decoder of pushed lines and replies, HTTP clients and the ROR client (by outcome), the accessors of
  unstructured objects (\<open>kapi\<close>, with their documented laws in the locale
  \<open>unstructured_api\<close>), listers and indexes, map iteration orders, random numbers and clocks.

  Not modelled: flag parsing, the loading of the kube config and the construction of clients, which
  are library calls (whether they fail is an input of startup); the banner main prints on standard
  error; the informer machinery of client-go, of which the models use only that the cache is updated
  before its notification is handled and that a handler gets its notifications one at a time, in
  order; request timeouts, which are outcomes of the client;
  and the in-place mutation of cached objects by the transforms, which return the object here.
\<close>

end
